theory Spec2Isabelle
  imports Complex_Main "HOL-Library.Sublist"
begin

section \<open>Data model\<close>

text \<open>
  JavaScript strings are modelled as \<open>string\<close> (lists of 8-bit characters, read as
  Latin-1 code points). A field that may be \<open>null\<close> or missing is an \<open>option\<close>;
  a string is truthy iff it is non-empty.
\<close>

definition truthy :: "string option \<Rightarrow> bool" where
  "truthy s = (case s of None \<Rightarrow> False | Some t \<Rightarrow> t \<noteq> [])"

text \<open>
  \<open>parent_id\<close> of a BOM record: the key may be missing (\<open>undefined\<close>), hold
  \<open>null\<close>, or hold an integer. Strict equality \<open>===\<close> on these values is equality
  of the datatype.
\<close>

datatype parent_ref = Absent | Null | ParentId int

record part_record =
  rec_id :: int
  parent_id :: parent_ref
  name :: "string option"
  reference_name :: "string option"
  shape_type :: "string option"
  is_assembly :: bool
  is_root :: bool

text \<open>
  The id of a selected part is the integer id of a BOM record, or the string
  \<open>mesh_<uuid prefix>\<close> of a synthesised fallback record.
\<close>

datatype js_id = IdNum int | IdStr string

record selected_part =
  sel_id :: js_id
  sel_name :: "string option"
  sel_reference_name :: "string option"
  meshName :: "string option"
  selectionSource :: "string option"
  matchMethod :: "string option"
  isFallback :: bool

section \<open>String operations\<close>

text \<open>\<open>s.includes(t)\<close>: \<open>t\<close> occurs in \<open>s\<close> as a contiguous substring.\<close>

definition js_includes :: "string \<Rightarrow> string \<Rightarrow> bool" where
  "js_includes s t = sublist t s"

text \<open>
  \<open>x && p(x)\<close> for an optional string \<open>x\<close>: false when \<open>x\<close> is \<open>null\<close>,
  missing or empty.
\<close>

definition guarded :: "string option \<Rightarrow> (string \<Rightarrow> bool) \<Rightarrow> bool" where
  "guarded x p = (case x of None \<Rightarrow> False | Some t \<Rightarrow> t \<noteq> [] \<and> p t)"

text \<open>
  \<open>toLowerCase\<close> on Latin-1 code points: \<open>A\<close>..\<open>Z\<close> and the accented capitals
  \<open>0xC0\<close>..\<open>0xDE\<close> (without the multiplication sign \<open>0xD7\<close>) move up by 32.
\<close>

definition toLowerChar :: "char \<Rightarrow> char" where
  "toLowerChar c =
     (let n = (of_char c :: nat) in
      if (65 \<le> n \<and> n \<le> 90) \<or> (192 \<le> n \<and> n \<le> 222 \<and> n \<noteq> 215)
      then char_of (n + 32) else c)"

definition toLowerCase :: "string \<Rightarrow> string" where
  "toLowerCase s = map toLowerChar s"

definition isDigit :: "char \<Rightarrow> bool" where
  "isDigit c = (48 \<le> (of_char c :: nat) \<and> (of_char c :: nat) \<le> 57)"

text \<open>
  \<open>s.replace(/[-_]\d+$/, '')\<close>: a non-empty run of digits that ends the string and
  follows directly a \<open>-\<close> or \<open>_\<close> is removed together with that character.
\<close>

definition stripNumericSuffix :: "string \<Rightarrow> string" where
  "stripNumericSuffix s =
     (let r = rev s; ds = takeWhile isDigit r in
      case dropWhile isDigit r of
        [] \<Rightarrow> s
      | c # pre \<Rightarrow>
          if ds \<noteq> [] \<and> (c = CHR ''-'' \<or> c = CHR ''_'') then rev pre else s)"

text \<open>
  \<open>id.toString()\<close> for an integer id: the decimal digits, with a leading \<open>-\<close> for a
  negative number (ids are far below the magnitude at which JavaScript switches to
  exponent notation).
\<close>

definition digit_char :: "nat \<Rightarrow> char" where
  "digit_char d = char_of (48 + d)"

fun digits :: "nat \<Rightarrow> string" where
  "digits n = (if n < 10 then [digit_char n] else digits (n div 10) @ [digit_char (n mod 10)])"

definition toString :: "int \<Rightarrow> string" where
  "toString i = (if i < 0 then CHR ''-'' # digits (nat (- i)) else digits (nat i))"

section \<open>Tree builder (DynamicBOMTreeView: buildTree, hierarchicalData)\<close>

datatype assembly_node = Node (item: part_record) (children: "assembly_node list")

text \<open>
  \<open>buildTree\<close> recurses on the ids it finds, which need not end on malformed data
  (a record that is its own ancestor): the recursion is bounded by fuel, and \<open>None\<close>
  is the call that does not return.
\<close>

fun buildTree :: "nat \<Rightarrow> part_record list \<Rightarrow> parent_ref \<Rightarrow> assembly_node list option" where
  "buildTree 0 assembly_tree parentId = None"
| "buildTree (Suc fuel) assembly_tree parentId =
     those (map (\<lambda>it. map_option (Node it) (buildTree fuel assembly_tree (ParentId (rec_id it))))
                (filter (\<lambda>it. parent_id it = parentId) assembly_tree))"

text \<open>
  \<open>hierarchicalData\<close>: \<open>null\<close> without BOM data, otherwise the first tree of
  \<open>buildTree(null)\<close> or \<open>null\<close> when there is none. The outer \<open>option\<close> is the
  fuel, the inner one JavaScript's \<open>null\<close>.
\<close>

definition hierarchicalData :: "nat \<Rightarrow> part_record list option \<Rightarrow> assembly_node option option" where
  "hierarchicalData fuel bomData =
     (case bomData of
        None \<Rightarrow> Some None
      | Some assembly_tree \<Rightarrow>
          (case buildTree fuel assembly_tree Null of
             None \<Rightarrow> None
           | Some tree \<Rightarrow> Some (case tree of [] \<Rightarrow> None | t # _ \<Rightarrow> Some t)))"

section \<open>Search filter (filterNode, filteredData)\<close>

text \<open>The \<open>matches\<close> expression of \<open>DynamicBOMTreeView\<close>.\<close>

definition node_matches :: "string \<Rightarrow> part_record \<Rightarrow> bool" where
  "node_matches searchQuery node =
     (guarded (reference_name node)
        (\<lambda>r. js_includes (toLowerCase r) (toLowerCase searchQuery)) \<or>
      guarded (name node)
        (\<lambda>n. js_includes (toLowerCase n) (toLowerCase searchQuery)) \<or>
      js_includes (toString (rec_id node)) searchQuery)"

text \<open>The \<open>matches\<close> expression of the older \<open>BOMTreeView\<close>, which does not look at \<open>name\<close>.\<close>

definition node_matches_legacy :: "string \<Rightarrow> part_record \<Rightarrow> bool" where
  "node_matches_legacy searchQuery node =
     (guarded (reference_name node)
        (\<lambda>r. js_includes (toLowerCase r) (toLowerCase searchQuery)) \<or>
      js_includes (toString (rec_id node)) searchQuery)"

text \<open>
  \<open>filterNode\<close>, with the \<open>matches\<close> expression as a parameter: the children are
  filtered first, \<open>null\<close> results are dropped (\<open>filter(Boolean)\<close>), and the node is
  rebuilt when it matches or keeps a child.
\<close>

fun filterNodeBy :: "(part_record \<Rightarrow> bool) \<Rightarrow> assembly_node \<Rightarrow> assembly_node option" where
  "filterNodeBy matches (Node it cs) =
     (let filteredChildren =
            map the (filter (\<lambda>r. r \<noteq> None) (map (filterNodeBy matches) cs)) in
      if matches it \<or> length filteredChildren > 0
      then Some (Node it filteredChildren) else None)"

definition filterNode :: "string \<Rightarrow> assembly_node \<Rightarrow> assembly_node option" where
  "filterNode searchQuery = filterNodeBy (node_matches searchQuery)"

definition filterNode_legacy :: "string \<Rightarrow> assembly_node \<Rightarrow> assembly_node option" where
  "filterNode_legacy searchQuery = filterNodeBy (node_matches_legacy searchQuery)"

definition filteredData :: "string \<Rightarrow> assembly_node option \<Rightarrow> assembly_node option" where
  "filteredData searchQuery hierarchical =
     (case hierarchical of
        None \<Rightarrow> hierarchical
      | Some t \<Rightarrow> if searchQuery = [] then hierarchical else filterNode searchQuery t)"

definition filteredData_legacy :: "string \<Rightarrow> assembly_node option \<Rightarrow> assembly_node option" where
  "filteredData_legacy searchQuery hierarchical =
     (case hierarchical of
        None \<Rightarrow> hierarchical
      | Some t \<Rightarrow> if searchQuery = [] then hierarchical else filterNode_legacy searchQuery t)"

section \<open>Identity resolver, scene to BOM (setupInteractions.handleSingleClick)\<close>

datatype strategy =
  reference_name_exact | name_exact | reference_name_contains | name_contains | loose_match

text \<open>The \<open>test\<close> of each strategy, for the name of the clicked mesh.\<close>

fun test :: "strategy \<Rightarrow> string \<Rightarrow> part_record \<Rightarrow> bool" where
  "test reference_name_exact clicked it = (reference_name it = Some clicked)"
| "test name_exact clicked it = (name it = Some clicked)"
| "test reference_name_contains clicked it =
     guarded (reference_name it)
       (\<lambda>r. clicked \<noteq> [] \<and> (js_includes r clicked \<or> js_includes clicked r))"
| "test name_contains clicked it =
     guarded (name it)
       (\<lambda>n. clicked \<noteq> [] \<and> (js_includes n clicked \<or> js_includes clicked n))"
| "test loose_match clicked it =
     (let cleanMeshName = toLowerCase (stripNumericSuffix clicked);
          cleanRefName = map_option (\<lambda>r. toLowerCase (stripNumericSuffix r)) (reference_name it);
          cleanItemName = map_option (\<lambda>n. toLowerCase (stripNumericSuffix n)) (name it)
      in guarded cleanRefName (\<lambda>r. cleanMeshName \<noteq> [] \<and> js_includes r cleanMeshName) \<or>
         guarded cleanItemName (\<lambda>n. cleanMeshName \<noteq> [] \<and> js_includes n cleanMeshName))"

definition strategies :: "strategy list" where
  "strategies =
     [reference_name_exact, name_exact, reference_name_contains, name_contains, loose_match]"

text \<open>
  The \<open>for\<close> loop over the strategies: each one searches the whole record list with
  \<open>find\<close>, and the loop stops at the first strategy that finds a record.
\<close>

fun first_match :: "strategy list \<Rightarrow> part_record list \<Rightarrow> string \<Rightarrow> (part_record \<times> strategy) option" where
  "first_match [] assembly_tree clicked = None"
| "first_match (st # sts) assembly_tree clicked =
     (case find (test st clicked) assembly_tree of
        Some partData \<Rightarrow> Some (partData, st)
      | None \<Rightarrow> first_match sts assembly_tree clicked)"

definition resolvePart :: "part_record list option \<Rightarrow> string \<Rightarrow> (part_record \<times> strategy) option" where
  "resolvePart bomData clicked =
     (case bomData of None \<Rightarrow> None | Some assembly_tree \<Rightarrow> first_match strategies assembly_tree clicked)"

fun strategy_name :: "strategy \<Rightarrow> string" where
  "strategy_name reference_name_exact = ''reference_name_exact''"
| "strategy_name name_exact = ''name_exact''"
| "strategy_name reference_name_contains = ''reference_name_contains''"
| "strategy_name name_contains = ''name_contains''"
| "strategy_name loose_match = ''loose_match''"

text \<open>A clicked scene object: its name and its uuid.\<close>

record clicked_object =
  clicked_name :: string
  uuid :: string

definition or_default :: "string \<Rightarrow> string \<Rightarrow> string" where
  "or_default s d = (if s = [] then d else s)"

text \<open>
  \<open>handleSingleClick\<close>: the argument passed to \<open>onPartSelect\<close>, for the first
  intersected object (\<open>None\<close> for a click on empty space).
\<close>

definition handleSingleClick ::
  "part_record list option \<Rightarrow> clicked_object option \<Rightarrow> selected_part option" where
  "handleSingleClick bomData hit =
     (case hit of
        None \<Rightarrow> None
      | Some clickedObject \<Rightarrow>
          (case resolvePart bomData (clicked_name clickedObject) of
             Some (partData, st) \<Rightarrow>
               Some \<lparr> sel_id = IdNum (rec_id partData),
                      sel_name = name partData,
                      sel_reference_name = reference_name partData,
                      meshName = Some (clicked_name clickedObject),
                      selectionSource = Some ''3d_model'',
                      matchMethod = Some (strategy_name st),
                      isFallback = False \<rparr>
           | None \<Rightarrow>
               Some \<lparr> sel_id = IdStr (''mesh_'' @ take 8 (uuid clickedObject)),
                      sel_name = Some (or_default (clicked_name clickedObject) ''Unknown Part''),
                      sel_reference_name =
                        Some (or_default (clicked_name clickedObject) ''Unknown Component''),
                      meshName = Some (clicked_name clickedObject),
                      selectionSource = Some ''3d_model'',
                      matchMethod = None,
                      isFallback = True \<rparr>))"

text \<open>
  \<open>handleDoubleClick\<close>: a double click on the object of the current selection
  passes \<open>null\<close> to \<open>onPartSelect\<close>, any other double click is handled as a
  single click. An integer id never equals a mesh name.
\<close>

definition handleDoubleClick ::
  "part_record list option \<Rightarrow> selected_part option \<Rightarrow> clicked_object option \<Rightarrow>
     selected_part option" where
  "handleDoubleClick bomData selectedPart hit =
     (case hit of
        None \<Rightarrow> None
      | Some clickedObject \<Rightarrow>
          (let isCurrentlySelected =
                 (case selectedPart of
                    None \<Rightarrow> False
                  | Some sp \<Rightarrow>
                      guarded (meshName sp) (\<lambda>m. m = clicked_name clickedObject) \<or>
                      guarded (sel_name sp) (\<lambda>n. n = clicked_name clickedObject) \<or>
                      guarded (sel_reference_name sp) (\<lambda>r. r = clicked_name clickedObject) \<or>
                      (case sel_id sp of
                         IdNum n \<Rightarrow> False
                       | IdStr i \<Rightarrow> i \<noteq> [] \<and> i = clicked_name clickedObject))
           in if isCurrentlySelected then None
              else handleSingleClick bomData (Some clickedObject)))"

section \<open>Selection state machine (App.handlePartSelect)\<close>

text \<open>
  \<open>handlePartSelect selectedPart part\<close> is the value stored by \<open>setSelectedPart\<close>:
  the first argument is the current selection read by the handler, the second the part
  passed in (\<open>None\<close> is \<open>null\<close>).
\<close>

definition handlePartSelect ::
  "selected_part option \<Rightarrow> selected_part option \<Rightarrow> selected_part option" where
  "handlePartSelect selectedPart part =
     (case selectedPart of
        None \<Rightarrow> part
      | Some cur \<Rightarrow>
          (case part of
             None \<Rightarrow> part
           | Some p \<Rightarrow> if sel_id cur = sel_id p then None else part))"

definition handleResetView :: "selected_part option \<Rightarrow> selected_part option" where
  "handleResetView selectedPart = None"

text \<open>
  The part a click on a tree node passes to \<open>onPartSelect\<close>: the node with
  \<open>meshName\<close> set to its reference name, else its name, else \<open>Part_<id>\<close>.
\<close>

definition tree_partToSelect :: "part_record \<Rightarrow> selected_part" where
  "tree_partToSelect node =
     \<lparr> sel_id = IdNum (rec_id node),
       sel_name = name node,
       sel_reference_name = reference_name node,
       meshName =
         Some (if truthy (reference_name node) then the (reference_name node)
               else if truthy (name node) then the (name node)
               else ''Part_'' @ toString (rec_id node)),
       selectionSource = Some ''bom_tree'',
       matchMethod = None,
       isFallback = False \<rparr>"

text \<open>
  \<open>setupInteractions\<close> is called by the load effect, which runs while
  \<open>isInitialLoad\<close> holds, that is once; the listeners it installs stay. They keep
  the arguments of that call: \<open>bomData\<close>, \<open>selectedPart\<close> and
  \<open>onPartSelect\<close>, the \<open>handlePartSelect\<close> of the render in which the scene
  was loaded, which reads the \<open>selectedPart\<close> of that render.
\<close>

record interactions =
  captured_bomData :: "part_record list option"
  captured_selectedPart :: "selected_part option"

definition setupInteractions ::
  "part_record list option \<Rightarrow> selected_part option \<Rightarrow> interactions" where
  "setupInteractions bomData selectedPart =
     \<lparr> captured_bomData = bomData, captured_selectedPart = selectedPart \<rparr>"

text \<open>
  The events that change the selection, and the selection after each: a click on a tree
  node goes through the current \<open>handlePartSelect\<close>, a click or double click in
  the scene through the listeners and the handler they captured.
\<close>

datatype app_event =
  TreeClick part_record
| SceneClick "clicked_object option"
| SceneDoubleClick "clicked_object option"
| ResetView

definition app_step ::
  "interactions \<Rightarrow> selected_part option \<Rightarrow> app_event \<Rightarrow> selected_part option" where
  "app_step ia selectedPart ev =
     (case ev of
        TreeClick node \<Rightarrow> handlePartSelect selectedPart (Some (tree_partToSelect node))
      | SceneClick hit \<Rightarrow>
          handlePartSelect (captured_selectedPart ia)
            (handleSingleClick (captured_bomData ia) hit)
      | SceneDoubleClick hit \<Rightarrow>
          handlePartSelect (captured_selectedPart ia)
            (handleDoubleClick (captured_bomData ia) (captured_selectedPart ia) hit)
      | ResetView \<Rightarrow> handleResetView selectedPart)"

section \<open>Camera framing (focusCameraOnMesh)\<close>

text \<open>
  Numbers are modelled as reals; IEEE rounding is not modelled. A division whose
  divisor is zero has no real value in JavaScript (\<open>Infinity\<close> or \<open>NaN\<close>), which is
  the result \<open>None\<close>.
\<close>

type_synonym vec3 = "real \<times> real \<times> real"

definition maxDim :: "vec3 \<Rightarrow> real" where
  "maxDim sz = (case sz of (x, y, z) \<Rightarrow> max (max x y) z)"

definition fov_radians :: "real \<Rightarrow> real" where
  "fov_radians fov_degrees = fov_degrees * (pi / 180)"

definition framing_distance :: "real \<Rightarrow> vec3 \<Rightarrow> real \<Rightarrow> real option" where
  "framing_distance factor sz fov_degrees =
     (let fov = fov_radians fov_degrees in
      if sin (fov / 2) = 0 then None
      else Some (\<bar>maxDim sz / sin (fov / 2)\<bar> * factor))"

definition focus_distance :: "vec3 \<Rightarrow> real \<Rightarrow> real option" where
  "focus_distance = framing_distance 2.5"

definition initial_fit_distance :: "vec3 \<Rightarrow> real \<Rightarrow> real option" where
  "initial_fit_distance = framing_distance 1.5"

section \<open>Scene, materials and camera (Model of DynamicInteractiveGLBModel)\<close>

text \<open>
  A colour is its three components. \<open>setHex\<close> reads them from a hex code (the
  conversion between colour spaces that newer versions of the graphics library apply is
  not modelled).
\<close>

type_synonym colour = "real \<times> real \<times> real"

definition setHex :: "nat \<Rightarrow> colour" where
  "setHex hex =
     (real ((hex div 65536) mod 256) / 255, real ((hex div 256) mod 256) / 255,
      real (hex mod 256) / 255)"

text \<open>
  Materials are objects shared by reference: a scene object holds the address of its
  material, and the store maps addresses to materials. A property a material does not
  have (\<open>undefined\<close>) is \<open>None\<close>. \<open>version\<close> counts the writes of
  \<open>needsUpdate = true\<close>.
\<close>

record material =
  color :: "colour option"
  emissive :: "colour option"
  emissiveIntensity :: "real option"
  isMeshStandardMaterial :: bool
  isMeshPhysicalMaterial :: bool
  metalness :: real
  roughness :: real
  envMapIntensity :: real
  version :: nat

type_synonym box3 = "(vec3 \<times> vec3) option"

text \<open>
  An object of the scene graph, with the \<open>userData\<close> entries the viewer writes.
  \<open>box\<close> is the bounding box of the object and its descendants (\<open>None\<close> when
  empty), \<open>partId\<close> an entry of \<open>userData\<close> that only the model file can set.
\<close>

record scene_object =
  mesh_name :: string
  isMesh :: bool
  material_ref :: "nat option"
  box :: box3
  castShadow :: bool
  receiveShadow :: bool
  partId :: "js_id option"
  originalMaterial :: "nat option"
  originalColor :: "colour option"
  originalEmissive :: "colour option"
  originalEmissiveIntensity :: "real option"

text \<open>
  A position that is not a finite number (a distance divided by a zero sine) is
  \<open>None\<close>.
\<close>

record camera_animation =
  startPosition :: "vec3 option"
  endPosition :: "vec3 option"
  startTarget :: vec3
  endTarget :: vec3
  progress :: real
  duration :: real

text \<open>
  The state the effects of \<open>Model\<close> read and write: the objects of the loaded scene
  in traversal order (depth first, parents before children), the material store, the
  camera, the target of the orbit controls (\<open>None\<close> while the controls are not
  mounted), and the component state \<open>cameraAnimation\<close>, \<open>isInitialLoad\<close>,
  \<open>loadError\<close>.
\<close>

record scene_state =
  objects :: "scene_object list"
  materials :: "nat \<Rightarrow> material"
  scene_box :: box3
  camera_position :: "vec3 option"
  camera_fov :: real
  controls_target :: "vec3 option"
  cameraAnimation :: "camera_animation option"
  isInitialLoad :: bool
  loadError :: "string option"

datatype js_error = TypeError

subsection \<open>Bounding boxes and camera placement\<close>

definition getCenter :: "box3 \<Rightarrow> vec3" where
  "getCenter b =
     (case b of
        None \<Rightarrow> (0, 0, 0)
      | Some ((x0, y0, z0), (x1, y1, z1)) \<Rightarrow> ((x0 + x1) / 2, (y0 + y1) / 2, (z0 + z1) / 2))"

definition getSize :: "box3 \<Rightarrow> vec3" where
  "getSize b =
     (case b of
        None \<Rightarrow> (0, 0, 0)
      | Some ((x0, y0, z0), (x1, y1, z1)) \<Rightarrow> (x1 - x0, y1 - y0, z1 - z0))"

text \<open>\<open>center + (1, 0.5, 1).normalize() * distance\<close>; the vector has length 1.5.\<close>

definition along_diagonal :: "vec3 \<Rightarrow> real \<Rightarrow> vec3" where
  "along_diagonal center distance =
     (case center of (x, y, z) \<Rightarrow>
        (x + 1 / 1.5 * distance, y + 0.5 / 1.5 * distance, z + 1 / 1.5 * distance))"

definition focusCameraOnMesh :: "scene_object \<Rightarrow> scene_state \<Rightarrow> scene_state" where
  "focusCameraOnMesh mesh s =
     (let center = getCenter (box mesh);
          distance = focus_distance (getSize (box mesh)) (camera_fov s);
          newCameraPosition = map_option (along_diagonal center) distance;
          currentTarget = (case controls_target s of Some t \<Rightarrow> t | None \<Rightarrow> center)
      in s\<lparr> cameraAnimation :=
               Some \<lparr> startPosition = camera_position s, endPosition = newCameraPosition,
                      startTarget = currentTarget, endTarget = center,
                      progress = 0, duration = 1000 \<rparr> \<rparr>)"

subsection \<open>Scene load: snapshot of the original materials\<close>

definition enhance_material :: "material \<Rightarrow> material" where
  "enhance_material m =
     (if isMeshStandardMaterial m \<or> isMeshPhysicalMaterial m
      then m\<lparr> envMapIntensity := (if metalness m > 0.5 then 1.0 else envMapIntensity m),
              roughness := (if roughness m = 0 then 0.1 else roughness m) \<rparr>
      else m)"

text \<open>The body of the first \<open>scene.traverse\<close> callback that writes, for one object.\<close>

definition load_object ::
  "scene_object \<Rightarrow> (nat \<Rightarrow> material) \<Rightarrow> scene_object \<times> (nat \<Rightarrow> material)" where
  "load_object child h =
     (if isMesh child then
        (let c1 = child\<lparr> castShadow := True, receiveShadow := True,
                         originalMaterial := material_ref child \<rparr> in
         case material_ref child of
           None \<Rightarrow> (c1, h)
         | Some a \<Rightarrow>
             (let m = enhance_material (h a);
                  c2 = c1\<lparr> originalColor :=
                             (case color m of Some c \<Rightarrow> Some c | None \<Rightarrow> originalColor c1),
                           originalEmissive :=
                             (case emissive m of Some e \<Rightarrow> Some e | None \<Rightarrow> originalEmissive c1),
                           originalEmissiveIntensity :=
                             (case emissiveIntensity m of
                                Some v \<Rightarrow> Some v
                              | None \<Rightarrow> originalEmissiveIntensity c1) \<rparr>
              in (c2, h(a := m\<lparr>version := Suc (version m)\<rparr>))))
      else (child, h))"

fun load_objects ::
  "scene_object list \<Rightarrow> (nat \<Rightarrow> material) \<Rightarrow> scene_object list \<times> (nat \<Rightarrow> material)" where
  "load_objects [] h = ([], h)"
| "load_objects (child # rest) h =
     (case load_object child h of
        (child', h') \<Rightarrow> (case load_objects rest h' of (rest', h'') \<Rightarrow> (child' # rest', h'')))"

text \<open>
  The load effect: it runs once (\<open>isInitialLoad\<close>), snapshots the materials, and
  places the camera to show the whole scene.
\<close>

definition load_effect :: "scene_state \<Rightarrow> scene_state" where
  "load_effect s =
     (if isInitialLoad s \<and> loadError s = None then
        (case load_objects (objects s) (materials s) of
           (objs, h) \<Rightarrow>
             (let center = getCenter (scene_box s);
                  cameraDistance = initial_fit_distance (getSize (scene_box s)) (camera_fov s)
              in s\<lparr> objects := objs, materials := h,
                     camera_position :=
                       map_option
                         (\<lambda>d. (case center of (x, y, z) \<Rightarrow> (x + d, y + d * 0.5, z + d)))
                         cameraDistance,
                     controls_target := map_option (\<lambda>t. center) (controls_target s),
                     isInitialLoad := False \<rparr>))
      else s)"

subsection \<open>Identity resolver, BOM to scene (selection effect)\<close>

text \<open>\<open>scene.getObjectByName\<close>: the first object with the name, of any kind.\<close>

fun first_index :: "('a \<Rightarrow> bool) \<Rightarrow> 'a list \<Rightarrow> nat option" where
  "first_index P [] = None"
| "first_index P (x # xs) = (if P x then Some 0 else map_option Suc (first_index P xs))"

definition getObjectByName :: "string \<Rightarrow> scene_object list \<Rightarrow> nat option" where
  "getObjectByName n objs = first_index (\<lambda>c. mesh_name c = n) objs"

text \<open>
  \<open>scene.traverse(child => { if (test(child)) selectedMesh = child })\<close>: every
  object is visited, so the last match stays. Objects are named by their position.
\<close>

fun traverse_select ::
  "(scene_object \<Rightarrow> bool) \<Rightarrow> scene_object list \<Rightarrow> nat \<Rightarrow> nat option \<Rightarrow> nat option" where
  "traverse_select P [] i selectedMesh = selectedMesh"
| "traverse_select P (child # rest) i selectedMesh =
     traverse_select P rest (Suc i) (if P child then Some i else selectedMesh)"

text \<open>A strategy guarded by \<open>field && !selectedMesh\<close>.\<close>

definition try_strategy ::
  "nat option \<Rightarrow> string option \<Rightarrow> (string \<Rightarrow> nat option) \<Rightarrow> nat option" where
  "try_strategy selectedMesh field search =
     (case selectedMesh of
        Some i \<Rightarrow> Some i
      | None \<Rightarrow> (case field of None \<Rightarrow> None | Some f \<Rightarrow> if f = [] then None else search f))"

definition id_toString :: "js_id \<Rightarrow> string" where
  "id_toString i = (case i of IdNum n \<Rightarrow> toString n | IdStr s \<Rightarrow> s)"

definition find_selected_mesh :: "selected_part \<Rightarrow> scene_object list \<Rightarrow> nat option" where
  "find_selected_mesh selectedPart objs =
     (let m1 = try_strategy None (meshName selectedPart) (\<lambda>n. getObjectByName n objs);
          m2 = try_strategy m1 (sel_reference_name selectedPart)
                 (\<lambda>r. traverse_select (\<lambda>c. isMesh c \<and> mesh_name c = r) objs 0 None);
          m3 = try_strategy m2 (sel_name selectedPart)
                 (\<lambda>n. traverse_select (\<lambda>c. isMesh c \<and> mesh_name c = n) objs 0 None);
          m4 = (case m3 of
                  Some i \<Rightarrow> Some i
                | None \<Rightarrow>
                    traverse_select
                      (\<lambda>c. isMesh c \<and> mesh_name c = id_toString (sel_id selectedPart)) objs 0 None);
          m5 = try_strategy m4 (sel_reference_name selectedPart)
                 (\<lambda>r. traverse_select
                        (\<lambda>c. isMesh c \<and> mesh_name c \<noteq> [] \<and>
                             (js_includes (mesh_name c) r \<or> js_includes r (mesh_name c)))
                        objs 0 None);
          m6 = try_strategy m5 (sel_name selectedPart)
                 (\<lambda>n. traverse_select
                        (\<lambda>c. isMesh c \<and> mesh_name c \<noteq> [] \<and>
                             (js_includes (mesh_name c) n \<or> js_includes n (mesh_name c)))
                        objs 0 None)
      in m6)"

text \<open>
  The lookup of the older \<open>InteractiveGLBModel\<close>: by mesh name, then one traversal
  with all tests at once. A mesh name (a string) equals the id only when the id is a
  string.
\<close>

definition find_selected_mesh_legacy :: "selected_part \<Rightarrow> scene_object list \<Rightarrow> nat option" where
  "find_selected_mesh_legacy selectedPart objs =
     (let m1 = try_strategy None (meshName selectedPart) (\<lambda>n. getObjectByName n objs)
      in case m1 of
           Some i \<Rightarrow> Some i
         | None \<Rightarrow>
             traverse_select
               (\<lambda>c. isMesh c \<and>
                    (Some (mesh_name c) = sel_name selectedPart \<or>
                     IdStr (mesh_name c) = sel_id selectedPart \<or>
                     partId c = Some (sel_id selectedPart) \<or>
                     Some (mesh_name c) = sel_reference_name selectedPart \<or>
                     (mesh_name c \<noteq> [] \<and>
                      guarded (sel_reference_name selectedPart)
                        (\<lambda>r. js_includes (mesh_name c) r \<or> js_includes r (mesh_name c)))))
               objs 0 None)"

subsection \<open>Selection effect: reset, then highlight\<close>

text \<open>
  \<open>target.copy(source)\<close> on a property of the material at address \<open>a\<close>: a
  \<open>TypeError\<close> when the material has no such property.
\<close>

definition restore_color ::
  "nat \<Rightarrow> colour option \<Rightarrow> (nat \<Rightarrow> material) \<Rightarrow> js_error + (nat \<Rightarrow> material)" where
  "restore_color a snapshot h =
     (case snapshot of
        None \<Rightarrow> Inr h
      | Some c \<Rightarrow>
          (case color (h a) of
             None \<Rightarrow> Inl TypeError
           | Some old \<Rightarrow> Inr (h(a := (h a)\<lparr>color := Some c\<rparr>))))"

definition restore_emissive ::
  "nat \<Rightarrow> colour option \<Rightarrow> (nat \<Rightarrow> material) \<Rightarrow> js_error + (nat \<Rightarrow> material)" where
  "restore_emissive a snapshot h =
     (case snapshot of
        None \<Rightarrow> Inr h
      | Some e \<Rightarrow>
          (case emissive (h a) of
             None \<Rightarrow> Inl TypeError
           | Some old \<Rightarrow> Inr (h(a := (h a)\<lparr>emissive := Some e\<rparr>))))"

definition restore_intensity ::
  "nat \<Rightarrow> real option \<Rightarrow> (nat \<Rightarrow> material) \<Rightarrow> (nat \<Rightarrow> material)" where
  "restore_intensity a snapshot h =
     (case snapshot of
        None \<Rightarrow> h
      | Some v \<Rightarrow> h(a := (h a)\<lparr>emissiveIntensity := Some v\<rparr>))"

text \<open>The body of the reset traversal, for one object.\<close>

definition reset_object ::
  "scene_object \<Rightarrow> (nat \<Rightarrow> material) \<Rightarrow> js_error + (scene_object \<times> (nat \<Rightarrow> material))" where
  "reset_object child h =
     (if isMesh child then
        (case originalMaterial child of
           None \<Rightarrow> Inr (child, h)
         | Some a \<Rightarrow>
             (case restore_color a (originalColor child) h of
                Inl e \<Rightarrow> Inl e
              | Inr h1 \<Rightarrow>
                  (case restore_emissive a (originalEmissive child) h1 of
                     Inl e \<Rightarrow> Inl e
                   | Inr h2 \<Rightarrow>
                       (let h3 = restore_intensity a (originalEmissiveIntensity child) h2
                        in Inr (child\<lparr>material_ref := Some a\<rparr>,
                                h3(a := (h3 a)\<lparr>version := Suc (version (h3 a))\<rparr>))))))
      else Inr (child, h))"

fun reset_materials ::
  "scene_object list \<Rightarrow> (nat \<Rightarrow> material) \<Rightarrow>
     js_error + (scene_object list \<times> (nat \<Rightarrow> material))" where
  "reset_materials [] h = Inr ([], h)"
| "reset_materials (child # rest) h =
     (case reset_object child h of
        Inl e \<Rightarrow> Inl e
      | Inr (child', h') \<Rightarrow>
          (case reset_materials rest h' of
             Inl e \<Rightarrow> Inl e
           | Inr (rest', h'') \<Rightarrow> Inr (child' # rest', h'')))"

text \<open>
  The address of a new material: one that no object of the scene refers to.
\<close>

definition object_refs :: "scene_object \<Rightarrow> nat list" where
  "object_refs c =
     (case material_ref c of None \<Rightarrow> [] | Some a \<Rightarrow> [a]) @
     (case originalMaterial c of None \<Rightarrow> [] | Some a \<Rightarrow> [a])"

definition new_material_ref :: "scene_object list \<Rightarrow> nat" where
  "new_material_ref objs = Suc (fold max (concat (map object_refs objs)) 0)"

text \<open>
  The highlight: a clone of the original material (a new material, version 0) with
  colour, emissive colour and emissive intensity overridden becomes the material of the
  selected mesh, and the camera is sent to the mesh.
\<close>

definition highlight :: "nat \<Rightarrow> scene_state \<Rightarrow> js_error + scene_state" where
  "highlight i s =
     (let selectedMesh = objects s ! i in
      case originalMaterial selectedMesh of
        None \<Rightarrow> Inl TypeError
      | Some a \<Rightarrow>
          (let clone = (materials s a)\<lparr>version := 0\<rparr> in
           case color clone of
             None \<Rightarrow> Inl TypeError
           | Some c \<Rightarrow>
               (case emissive clone of
                  None \<Rightarrow> Inl TypeError
                | Some e \<Rightarrow>
                    (let highlightMaterial =
                           clone\<lparr> color := Some (setHex 0xff4444),
                                  emissive := Some (setHex 0x441100),
                                  emissiveIntensity := Some 0.3,
                                  version := 1 \<rparr>;
                         n = new_material_ref (objects s)
                     in Inr (focusCameraOnMesh selectedMesh
                               (s\<lparr> objects :=
                                      (objects s)[i := selectedMesh\<lparr>material_ref := Some n\<rparr>],
                                    materials := (materials s)(n := highlightMaterial) \<rparr>))))))"

definition reset_then_highlight ::
  "(selected_part \<Rightarrow> scene_object list \<Rightarrow> nat option) \<Rightarrow> selected_part option \<Rightarrow>
     scene_state \<Rightarrow> js_error + scene_state" where
  "reset_then_highlight lookup selectedPart s =
     (case reset_materials (objects s) (materials s) of
        Inl e \<Rightarrow> Inl e
      | Inr (objs, h) \<Rightarrow>
          (let s1 = s\<lparr>objects := objs, materials := h\<rparr> in
           case selectedPart of
             None \<Rightarrow> Inr s1
           | Some p \<Rightarrow>
               (case lookup p objs of
                  None \<Rightarrow> Inr s1
                | Some i \<Rightarrow>
                    if i < length objs \<and> isMesh (objs ! i) then highlight i s1 else Inr s1)))"

text \<open>The selection effect of \<open>DynamicInteractiveGLBModel\<close>: nothing after a load error.\<close>

definition selection_effect :: "selected_part option \<Rightarrow> scene_state \<Rightarrow> js_error + scene_state" where
  "selection_effect selectedPart s =
     (if loadError s \<noteq> None then Inr s
      else reset_then_highlight find_selected_mesh selectedPart s)"

text \<open>The selection effect of the older \<open>InteractiveGLBModel\<close>.\<close>

definition selection_effect_legacy ::
  "selected_part option \<Rightarrow> scene_state \<Rightarrow> js_error + scene_state" where
  "selection_effect_legacy selectedPart s =
     reset_then_highlight find_selected_mesh_legacy selectedPart s"

text \<open>A sequence of selection changes, each handled by the effect; an error ends it.\<close>

fun selection_changes ::
  "(selected_part option \<Rightarrow> scene_state \<Rightarrow> js_error + scene_state) \<Rightarrow>
     selected_part option list \<Rightarrow> scene_state \<Rightarrow> js_error + scene_state" where
  "selection_changes effect [] s = Inr s"
| "selection_changes effect (sel # sels) s =
     (case effect sel s of Inl e \<Rightarrow> Inl e | Inr s' \<Rightarrow> selection_changes effect sels s')"

section \<open>Notions used to state the properties\<close>

text \<open>All nodes of a hierarchy, in pre-order, and the records they carry.\<close>

fun subtrees :: "assembly_node \<Rightarrow> assembly_node list" where
  "subtrees (Node it cs) = Node it cs # concat (map subtrees cs)"

definition records :: "assembly_node \<Rightarrow> part_record list" where
  "records t = map item (subtrees t)"

text \<open>
  \<open>below assembly_tree p r\<close>: the record \<open>r\<close> of the list has parent reference
  \<open>p\<close>, or its parent is the id of a record below \<open>p\<close>. A record is reachable
  when it is below \<open>null\<close>.
\<close>

inductive below :: "part_record list \<Rightarrow> parent_ref \<Rightarrow> part_record \<Rightarrow> bool"
  for assembly_tree :: "part_record list" where
  child: "r \<in> set assembly_tree \<Longrightarrow> parent_id r = p \<Longrightarrow> below assembly_tree p r"
| desc: "below assembly_tree p q \<Longrightarrow> r \<in> set assembly_tree \<Longrightarrow>
         parent_id r = ParentId (rec_id q) \<Longrightarrow> below assembly_tree p r"

definition reachable :: "part_record list \<Rightarrow> part_record \<Rightarrow> bool" where
  "reachable assembly_tree r = below assembly_tree Null r"

abbreviation ref_to :: "part_record \<Rightarrow> parent_ref" where
  "ref_to c \<equiv> ParentId (rec_id c)"

definition children_of :: "part_record list \<Rightarrow> parent_ref \<Rightarrow> part_record list" where
  "children_of assembly_tree p = filter (\<lambda>it. parent_id it = p) assembly_tree"

text \<open>A record lacks a parent when \<open>parent_id\<close> is \<open>null\<close> or missing.\<close>

definition lacks_parent :: "part_record \<Rightarrow> bool" where
  "lacks_parent r = (parent_id r = Null \<or> parent_id r = Absent)"

text \<open>A node matches or has a matching descendant.\<close>

definition has_match :: "(part_record \<Rightarrow> bool) \<Rightarrow> assembly_node \<Rightarrow> bool" where
  "has_match P n = list_ex (\<lambda>m. P (item m)) (subtrees n)"

text \<open>The chains of records from the root of a hierarchy down to each of its nodes.\<close>

fun chains :: "assembly_node \<Rightarrow> part_record list list" where
  "chains (Node it cs) = [it] # map ((#) it) (concat (map chains cs))"

definition kept_children :: "(part_record \<Rightarrow> bool) \<Rightarrow> assembly_node list \<Rightarrow> assembly_node list" where
  "kept_children P cs = map the (filter (\<lambda>r. r \<noteq> None) (map (filterNodeBy P) cs))"

text \<open>
  The case-insensitive substring test of the specification: the query, in lower case,
  occurs in the field, in lower case; a missing or empty field is never tested.
\<close>

definition ci_contains :: "string \<Rightarrow> string \<Rightarrow> bool" where
  "ci_contains field q = (field \<noteq> [] \<and> sublist (toLowerCase q) (toLowerCase field))"

text \<open>The characters of a decimal id.\<close>

definition id_char :: "char \<Rightarrow> bool" where
  "id_char c = (isDigit c \<or> c = CHR ''-'')"

text \<open>
  The substring strategies in the words of the specification: one of the two strings
  contains the other (both non-empty); and, for the normalized match, the field
  contains the mesh name after a trailing \<open>-digits\<close> or \<open>_digits\<close> suffix is
  stripped from both and both are put in lower case. \<open>numeric_suffix s p\<close>: the
  string \<open>s\<close> is \<open>p\<close> followed by such a suffix.
\<close>

definition substring_either :: "string \<Rightarrow> string \<Rightarrow> bool" where
  "substring_either a b = (a \<noteq> [] \<and> b \<noteq> [] \<and> (sublist a b \<or> sublist b a))"

definition ref_substring :: "string \<Rightarrow> part_record \<Rightarrow> bool" where
  "ref_substring m x =
     (case reference_name x of None \<Rightarrow> False | Some r \<Rightarrow> substring_either r m)"

definition name_substring :: "string \<Rightarrow> part_record \<Rightarrow> bool" where
  "name_substring m x =
     (case name x of None \<Rightarrow> False | Some n \<Rightarrow> substring_either n m)"

definition numeric_suffix :: "string \<Rightarrow> string \<Rightarrow> bool" where
  "numeric_suffix s p =
     (\<exists>c ds. s = p @ c # ds \<and> (c = CHR ''-'' \<or> c = CHR ''_'') \<and> ds \<noteq> [] \<and>
             list_all isDigit ds)"

definition normalized :: "string \<Rightarrow> string" where
  "normalized s = toLowerCase (stripNumericSuffix s)"

definition normalized_contains :: "string \<Rightarrow> string \<Rightarrow> bool" where
  "normalized_contains field m =
     (normalized field \<noteq> [] \<and> normalized m \<noteq> [] \<and> sublist (normalized m) (normalized field))"

definition normalized_match :: "string \<Rightarrow> part_record \<Rightarrow> bool" where
  "normalized_match m x =
     ((case reference_name x of None \<Rightarrow> False | Some r \<Rightarrow> normalized_contains r m) \<or>
      (case name x of None \<Rightarrow> False | Some n \<Rightarrow> normalized_contains n m))"

section \<open>Notions used to state the properties of the selection effect\<close>

text \<open>
  The snapshot of a mesh agrees with its original material: colour, emissive colour and
  emissive intensity stored in \<open>userData\<close> are those of the material at the stored
  address, and a mesh without an original material has no material at all.
\<close>

definition snapshot_of :: "(nat \<Rightarrow> material) \<Rightarrow> scene_object \<Rightarrow> bool" where
  "snapshot_of h c =
     (case originalMaterial c of
        None \<Rightarrow> material_ref c = None
      | Some a \<Rightarrow>
          originalColor c = color (h a) \<and> originalEmissive c = emissive (h a) \<and>
          originalEmissiveIntensity c = emissiveIntensity (h a))"

definition snapshot_ok :: "scene_object list \<Rightarrow> (nat \<Rightarrow> material) \<Rightarrow> bool" where
  "snapshot_ok objs h = list_all (\<lambda>c. \<not> isMesh c \<or> snapshot_of h c) objs"

text \<open>Two stores show every material with the same colour, emissive colour and intensity.\<close>

definition same_appearance :: "(nat \<Rightarrow> material) \<Rightarrow> (nat \<Rightarrow> material) \<Rightarrow> bool" where
  "same_appearance h h' =
     (\<forall>a. color (h' a) = color (h a) \<and> emissive (h' a) = emissive (h a) \<and>
          emissiveIntensity (h' a) = emissiveIntensity (h a))"

text \<open>A scene as the loader delivers it: no snapshot entries in \<open>userData\<close> yet.\<close>

definition fresh_userData :: "scene_object list \<Rightarrow> bool" where
  "fresh_userData objs =
     list_all (\<lambda>c. originalMaterial c = None \<and> originalColor c = None \<and>
                   originalEmissive c = None \<and> originalEmissiveIntensity c = None) objs"

text \<open>A mesh is highlighted when its material is not its original material.\<close>

definition highlighted :: "scene_object \<Rightarrow> bool" where
  "highlighted c = (isMesh c \<and> material_ref c \<noteq> originalMaterial c)"

text \<open>An object without its material reference: all that the selection effect leaves alone.\<close>

definition forget_ref :: "scene_object \<Rightarrow> scene_object" where
  "forget_ref c = c\<lparr>material_ref := None\<rparr>"

text \<open>The reset of one object when nothing fails.\<close>

definition reset_ref :: "scene_object \<Rightarrow> scene_object" where
  "reset_ref c =
     (if isMesh c \<and> originalMaterial c \<noteq> None then c\<lparr>material_ref := originalMaterial c\<rparr> else c)"

text \<open>A mesh shows the values of its snapshot.\<close>

definition shows_snapshot :: "(nat \<Rightarrow> material) \<Rightarrow> scene_object \<Rightarrow> bool" where
  "shows_snapshot h c =
     (material_ref c = originalMaterial c \<and>
      (case material_ref c of
         None \<Rightarrow> True
       | Some a \<Rightarrow>
           color (h a) = originalColor c \<and> emissive (h a) = originalEmissive c \<and>
           emissiveIntensity (h a) = originalEmissiveIntensity c))"

text \<open>The highlight material of an original: a copy with four properties overridden.\<close>

definition is_highlight_of :: "material \<Rightarrow> material \<Rightarrow> bool" where
  "is_highlight_of orig m =
     (m = orig\<lparr> color := Some (setHex 0xff4444), emissive := Some (setHex 0x441100),
               emissiveIntensity := Some 0.3, version := 1 \<rparr>)"

definition viewer_inv :: "scene_state \<Rightarrow> bool" where
  "viewer_inv s = snapshot_ok (objects s) (materials s)"

text \<open>
  The state in which the load effect finds a scene: the loader's objects, the first
  load still to come, no load error.
\<close>

definition raw_scene :: "scene_state \<Rightarrow> bool" where
  "raw_scene s0 = (fresh_userData (objects s0) \<and> isInitialLoad s0 \<and> loadError s0 = None)"

definition is_effect ::
  "(selected_part option \<Rightarrow> scene_state \<Rightarrow> js_error + scene_state) \<Rightarrow> bool" where
  "is_effect effect = (effect = selection_effect \<or> effect = selection_effect_legacy)"

section \<open>Example data\<close>

definition mk_part :: "int \<Rightarrow> parent_ref \<Rightarrow> string option \<Rightarrow> string option \<Rightarrow> part_record" where
  "mk_part i p n r =
     \<lparr> rec_id = i, parent_id = p, name = n, reference_name = r,
       shape_type = None, is_assembly = False, is_root = (p = Null) \<rparr>"

definition bracket_12 :: part_record where
  "bracket_12 = mk_part 2 (ParentId 1) (Some ''Plate'') (Some ''Bracket-12'')"

definition bracket :: part_record where
  "bracket = mk_part 3 (ParentId 1) (Some ''Angle'') (Some ''Bracket'')"

definition housing_7 :: part_record where
  "housing_7 = mk_part 7 (ParentId 1) (Some ''Housing'') (Some ''HSG'')"

definition bolt_8 :: part_record where
  "bolt_8 = mk_part 8 (ParentId 1) (Some ''Bolt'') (Some ''M7'')"

definition shaft_sel :: selected_part where
  "shaft_sel =
     \<lparr> sel_id = IdNum 2, sel_name = Some ''Shaft'', sel_reference_name = Some ''Shaft-01'',
       meshName = Some ''Shaft-01'', selectionSource = Some ''bom_tree'',
       matchMethod = None, isFallback = False \<rparr>"

definition assy_1 :: part_record where
  "assy_1 = mk_part 1 Null (Some ''ASSY'') None"

definition shaft_01 :: part_record where
  "shaft_01 = mk_part 2 (ParentId 1) (Some ''Shaft'') (Some ''Shaft-01'')"

definition shaft_02 :: part_record where
  "shaft_02 = mk_part 3 (ParentId 1) (Some ''Shaft'') (Some ''Shaft-02'')"

definition stray_9 :: part_record where
  "stray_9 = mk_part 9 (ParentId 42) (Some ''Washer'') (Some ''W-9'')"

definition shaft_bom :: "part_record list" where
  "shaft_bom = [assy_1, shaft_01, shaft_02, stray_9]"

definition absent_root_bom :: "part_record list" where
  "absent_root_bom = [mk_part 1 Absent (Some ''ASSY'') None, shaft_01, shaft_02]"

definition drive_2 :: part_record where
  "drive_2 = mk_part 2 (ParentId 1) (Some ''Drive unit'') (Some ''DU-01'')"

definition motor_3 :: part_record where
  "motor_3 = mk_part 3 (ParentId 2) (Some ''Stepper Motor'') (Some ''SM-07'')"

definition motor_tree :: assembly_node where
  "motor_tree = Node assy_1 [Node drive_2 [Node motor_3 []], Node housing_7 []]"

definition steel :: material where
  "steel =
     \<lparr> color = Some (4 / 5, 4 / 5, 4 / 5), emissive = Some (0, 0, 0),
       emissiveIntensity = Some 1, isMeshStandardMaterial = True,
       isMeshPhysicalMaterial = False, metalness = 9 / 10, roughness = 0,
       envMapIntensity = 1 / 2, version = 0 \<rparr>"

definition raw_object :: "string \<Rightarrow> bool \<Rightarrow> nat option \<Rightarrow> scene_object" where
  "raw_object n m r =
     \<lparr> mesh_name = n, isMesh = m, material_ref = r,
       box = Some ((0, 0, 0), (10, 10, 10)), castShadow = False, receiveShadow = False,
       partId = None, originalMaterial = None, originalColor = None,
       originalEmissive = None, originalEmissiveIntensity = None \<rparr>"

text \<open>A group with two meshes that share one material.\<close>

definition shaft_scene :: scene_state where
  "shaft_scene =
     \<lparr> objects = [raw_object ''ASSY'' False None, raw_object ''Shaft-01'' True (Some 0),
                  raw_object ''Shaft-02'' True (Some 0)],
       materials = (\<lambda>a. steel),
       scene_box = Some ((0, 0, 0), (10, 10, 20)),
       camera_position = Some (15, 15, 15), camera_fov = 60,
       controls_target = Some (0, 0, 0), cameraAnimation = None,
       isInitialLoad = True, loadError = None \<rparr>"

text \<open>A click on the mesh \<open>Shaft-01\<close>, and the part it selects from \<open>shaft_bom\<close>.\<close>

definition shaft_01_click :: clicked_object where
  "shaft_01_click = \<lparr> clicked_name = ''Shaft-01'', uuid = ''0a1b2c3d-e4f5'' \<rparr>"

definition shaft_01_clicked :: selected_part where
  "shaft_01_clicked =
     \<lparr> sel_id = IdNum 2, sel_name = Some ''Shaft'', sel_reference_name = Some ''Shaft-01'',
       meshName = Some ''Shaft-01'', selectionSource = Some ''3d_model'',
       matchMethod = Some ''reference_name_exact'', isFallback = False \<rparr>"

section \<open>Properties of the selection state machine\<close>

lemma handlePartSelect_from_idle: "handlePartSelect None part = part"
  by (simp add: handlePartSelect_def)

lemma handlePartSelect_retarget:
  "sel_id cur \<noteq> sel_id p \<Longrightarrow> handlePartSelect (Some cur) (Some p) = Some p"
  by (simp add: handlePartSelect_def)

lemma handlePartSelect_deselect: "handlePartSelect s None = None"
  by (simp add: handlePartSelect_def split: option.splits)

text \<open>
  The handler itself toggles: with the current selection in hand, selecting a part
  with the id of the selected part clears the selection, and so does the double-click
  handler for the mesh of the selected part. This is the path of a click in the tree.
\<close>

lemma handlePartSelect_toggle:
  "(sel_id cur = sel_id x \<longrightarrow> handlePartSelect (Some cur) (Some x) = None) \<and>
   (handlePartSelect s (Some x) \<noteq> None \<longrightarrow>
      handlePartSelect (handlePartSelect s (Some x)) (Some x) = None) \<and>
   (guarded (meshName cur) (\<lambda>m. m = clicked_name clickedObject) \<longrightarrow>
      handlePartSelect (Some cur) (handleDoubleClick bomData (Some cur) (Some clickedObject)) = None)"
  by (cases s) (simp_all add: handlePartSelect_def handleDoubleClick_def)

lemma tree_click_toggle:
  "app_step ia (app_step ia None (TreeClick node)) (TreeClick node) = None"
  by (simp add: app_step_def handlePartSelect_def)

text \<open>
  The listeners of the scene never see a selection made after the load: when nothing
  was selected at load, a click or a double click on an object always selects.
\<close>

lemma scene_click_never_clears:
  "captured_selectedPart ia = None \<Longrightarrow>
     app_step ia cur (SceneClick (Some clickedObject)) \<noteq> None \<and>
     app_step ia cur (SceneDoubleClick (Some clickedObject)) \<noteq> None \<and>
     app_step ia cur (SceneClick (Some clickedObject)) =
       app_step ia None (SceneClick (Some clickedObject))"
  by (simp add: app_step_def handlePartSelect_def handleDoubleClick_def handleSingleClick_def
      split: option.splits prod.splits)

text \<open>
  Claim C4. In the scene the toggle does not happen. The listeners are installed once,
  at load, with the selection of that moment (none): a click on the mesh
  \<open>Shaft-01\<close> selects part 2, and a second click, or a double click, on the same
  mesh while part 2 is selected leaves part 2 selected, where the claim says the
  selection becomes \<open>null\<close>.
\<close>

theorem C4_scene_toggle_stale:
  "app_step (setupInteractions (Some shaft_bom) None) None (SceneClick (Some shaft_01_click)) =
     Some shaft_01_clicked \<and>
   sel_id shaft_01_clicked = IdNum 2 \<and>
   app_step (setupInteractions (Some shaft_bom) None) (Some shaft_01_clicked)
     (SceneClick (Some shaft_01_click)) = Some shaft_01_clicked \<and>
   app_step (setupInteractions (Some shaft_bom) None) (Some shaft_01_clicked)
     (SceneDoubleClick (Some shaft_01_click)) = Some shaft_01_clicked"
  by code_simp

section \<open>Properties of camera framing\<close>

lemma sin_fov_60: "sin (fov_radians 60 / 2) = 1 / 2"
proof -
  have "fov_radians 60 / 2 = pi / 6" by (simp add: fov_radians_def)
  then show ?thesis by (simp only: sin_30)
qed

lemma focus_distance_10_60: "focus_distance (10, 10, 10) 60 = Some 50"
  using sin_fov_60 by (simp add: focus_distance_def framing_distance_def maxDim_def Let_def)

text \<open>
  Claim C8. The claim computes the distance from half of the largest dimension:
  \<open>focusCameraOnMesh\<close> divides the largest dimension itself by the sine, so a box of
  size (10,10,10) at a vertical field of view of 60 degrees is framed from distance
  \<open>10 / sin(30 degrees) * 2.5 = 50\<close>.
\<close>

theorem C8_focus_distance:
  "focus_distance (10, 10, 10) 60 = Some (\<bar>10 / sin (fov_radians 60 / 2)\<bar> * 2.5) \<and>
   \<bar>10 / sin (fov_radians 60 / 2)\<bar> * 2.5 = (50 :: real) \<and>
   getSize (box (raw_object ''Shaft-01'' True (Some 0))) = (10, 10, 10) \<and>
   map_option endPosition
     (cameraAnimation (focusCameraOnMesh (raw_object ''Shaft-01'' True (Some 0)) shaft_scene)) =
     Some (Some (along_diagonal (5, 5, 5) 50))"
  using sin_fov_60 focus_distance_10_60
  by (simp add: focus_distance_def framing_distance_def maxDim_def Let_def focusCameraOnMesh_def
      raw_object_def shaft_scene_def getSize_def getCenter_def)

theorem C8_focus_distance_counterexample:
  "focus_distance (10, 10, 10) 60 \<noteq> Some (5 / sin (fov_radians 60 / 2) * 2.5) \<and>
   focus_distance (10, 10, 10) 60 \<noteq> Some 25"
  using sin_fov_60 focus_distance_10_60 by simp

section \<open>Properties of the identity resolver\<close>

lemma first_match_sound:
  "first_match sts recs m = Some (r, st) \<Longrightarrow>
     find (test st m) recs = Some r \<and> st \<in> set sts \<and>
     (\<forall>st' \<in> set (takeWhile (\<lambda>s. s \<noteq> st) sts). find (test st' m) recs = None)"
proof (induction sts)
  case Nil
  then show ?case by simp
next
  case (Cons s sts)
  show ?case
  proof (cases "find (test s m) recs")
    case None
    with Cons.prems have "first_match sts recs m = Some (r, st)" by simp
    from Cons.IH[OF this] None show ?thesis by auto
  next
    case (Some x)
    with Cons.prems have "x = r" "s = st" by simp_all
    with Some show ?thesis by simp
  qed
qed

lemma first_match_none:
  "first_match sts recs m = None \<longleftrightarrow> (\<forall>st \<in> set sts. find (test st m) recs = None)"
  by (induction sts) (auto split: option.splits)

lemma find_exists: "\<exists>x \<in> set xs. P x \<Longrightarrow> \<exists>y. find P xs = Some y"
  by (induction xs) auto

lemma test_reference_name_exact: "test reference_name_exact m = (\<lambda>x. reference_name x = Some m)"
  by (rule ext) simp

lemma test_name_exact: "test name_exact m = (\<lambda>x. name x = Some m)"
  by (rule ext) simp

lemma resolve_ref_exact:
  assumes "\<exists>x \<in> set recs. reference_name x = Some m"
  shows "resolvePart (Some recs) m =
           map_option (\<lambda>r. (r, reference_name_exact)) (find (\<lambda>x. reference_name x = Some m) recs)"
proof -
  from find_exists[OF assms] obtain y where "find (\<lambda>x. reference_name x = Some m) recs = Some y"
    by blast
  then show ?thesis by (simp add: resolvePart_def strategies_def test_reference_name_exact)
qed

lemma resolve_name_exact:
  assumes "\<forall>x \<in> set recs. reference_name x \<noteq> Some m" "\<exists>x \<in> set recs. name x = Some m"
  shows "resolvePart (Some recs) m =
           map_option (\<lambda>r. (r, name_exact)) (find (\<lambda>x. name x = Some m) recs)"
proof -
  have n: "find (\<lambda>x. reference_name x = Some m) recs = None"
    using assms(1) by (simp add: find_None_iff)
  from find_exists[OF assms(2)] obtain y where "find (\<lambda>x. name x = Some m) recs = Some y"
    by blast
  then show ?thesis
    using n by (simp add: resolvePart_def strategies_def test_reference_name_exact test_name_exact)
qed

lemma resolve_substring:
  assumes "\<forall>x \<in> set recs. reference_name x \<noteq> Some m" "\<forall>x \<in> set recs. name x \<noteq> Some m"
  shows "resolvePart (Some recs) m =
           first_match [reference_name_contains, name_contains, loose_match] recs m"
proof -
  have n: "find (\<lambda>x. reference_name x = Some m) recs = None"
    using assms(1) by (simp add: find_None_iff)
  have n2: "find (\<lambda>x. name x = Some m) recs = None"
    using assms(2) by (simp add: find_None_iff)
  show ?thesis
    using n n2 by (simp add: resolvePart_def strategies_def test_reference_name_exact test_name_exact)
qed

lemma bracket_example:
  assumes "reference_name a = Some ''Bracket-12''" "reference_name b = Some ''Bracket''"
  shows "resolvePart (Some [a, b]) ''Bracket-12'' = Some (a, reference_name_exact) \<and>
         resolvePart (Some [b, a]) ''Bracket-12'' = Some (a, reference_name_exact)"
  using assms by (simp add: resolvePart_def strategies_def)

text \<open>No strategy of the scene-to-BOM resolver reads the id of a record.\<close>

lemma test_ignores_id: "test st m (r\<lparr>rec_id := i\<rparr>) = test st m r"
  by (cases st) (simp_all add: Let_def)

lemma test_reference_name_contains: "test reference_name_contains m = ref_substring m"
  by (rule ext)
     (auto simp: ref_substring_def substring_either_def guarded_def js_includes_def
       split: option.splits)

lemma test_name_contains: "test name_contains m = name_substring m"
  by (rule ext)
     (auto simp: name_substring_def substring_either_def guarded_def js_includes_def
       split: option.splits)

lemma test_loose_match: "test loose_match m = normalized_match m"
  by (rule ext)
     (auto simp: normalized_match_def normalized_contains_def normalized_def guarded_def
       js_includes_def Let_def split: option.splits)

lemma not_digit_sep: "c = CHR ''-'' \<or> c = CHR ''_'' \<Longrightarrow> \<not> isDigit c"
  by (auto simp: isDigit_def)

lemma strip_suffix:
  assumes "c = CHR ''-'' \<or> c = CHR ''_''" "ds \<noteq> []" "list_all isDigit ds"
  shows "stripNumericSuffix (p @ c # ds) = p"
proof -
  have r: "rev (p @ c # ds) = rev ds @ c # rev p" by simp
  have all: "\<And>x. x \<in> set (rev ds) \<Longrightarrow> isDigit x" using assms(3) by (simp add: list_all_iff)
  have nd: "\<not> isDigit c" using assms(1) by (rule not_digit_sep)
  have t: "takeWhile isDigit (rev ds @ c # rev p) = rev ds"
    using takeWhile_append2[of "rev ds" isDigit "c # rev p"] all nd by simp
  have d: "dropWhile isDigit (rev ds @ c # rev p) = c # rev p"
    using dropWhile_append2[of "rev ds" isDigit "c # rev p"] all nd by simp
  show ?thesis
    unfolding stripNumericSuffix_def r Let_def t d using assms(1,2) by auto
qed

lemma strip_no_suffix:
  assumes "\<not> (\<exists>p. numeric_suffix s p)"
  shows "stripNumericSuffix s = s"
proof (rule ccontr)
  assume ne: "stripNumericSuffix s \<noteq> s"
  then obtain c pre where d: "dropWhile isDigit (rev s) = c # pre"
    and t: "takeWhile isDigit (rev s) \<noteq> []" and c: "c = CHR ''-'' \<or> c = CHR ''_''"
    by (auto simp: stripNumericSuffix_def Let_def split: list.splits if_splits)
  have "rev s = takeWhile isDigit (rev s) @ dropWhile isDigit (rev s)" by simp
  with d have "rev s = takeWhile isDigit (rev s) @ c # pre" by simp
  then have "s = rev (takeWhile isDigit (rev s) @ c # pre)" by (metis rev_rev_ident)
  then have s: "s = rev pre @ c # rev (takeWhile isDigit (rev s))" by simp
  have "list_all isDigit (rev (takeWhile isDigit (rev s)))"
    by (auto simp: list_all_iff dest: set_takeWhileD)
  with s t c have "numeric_suffix s (rev pre)"
    unfolding numeric_suffix_def by (metis rev_is_Nil_conv)
  with assms show False by blast
qed

lemma first_match_first:
  "\<forall>st' \<in> set pre. find (test st' m) recs = None \<Longrightarrow> find (test st m) recs = Some r \<Longrightarrow>
     first_match (pre @ st # post) recs m = Some (r, st)"
  by (induction pre) auto

lemma find_none: "\<forall>x \<in> set xs. \<not> P x \<Longrightarrow> find P xs = None"
  by (simp add: find_None_iff)

lemma resolve_none_iff:
  "resolvePart (Some recs) m = None \<longleftrightarrow>
     (\<forall>x \<in> set recs. reference_name x \<noteq> Some m \<and> name x \<noteq> Some m \<and> \<not> ref_substring m x \<and>
        \<not> name_substring m x \<and> \<not> normalized_match m x)"
proof -
  have "resolvePart (Some recs) m = None \<longleftrightarrow>
          (\<forall>st \<in> set strategies. find (test st m) recs = None)"
    by (simp add: resolvePart_def first_match_none)
  also have "\<dots> \<longleftrightarrow> (\<forall>x \<in> set recs. reference_name x \<noteq> Some m \<and> name x \<noteq> Some m \<and>
        \<not> ref_substring m x \<and> \<not> name_substring m x \<and> \<not> normalized_match m x)"
    unfolding strategies_def
    by (auto simp: find_None_iff test_reference_name_contains test_name_contains
        test_loose_match simp del: test.simps(3,4,5))
  finally show ?thesis .
qed

lemma resolve_ref_substring:
  assumes "\<forall>x \<in> set recs. reference_name x \<noteq> Some m \<and> name x \<noteq> Some m"
    and "\<exists>x \<in> set recs. ref_substring m x"
  shows "resolvePart (Some recs) m =
           map_option (\<lambda>x. (x, reference_name_contains)) (find (ref_substring m) recs)"
proof -
  from find_exists[OF assms(2)] obtain y where y: "find (ref_substring m) recs = Some y" by blast
  have "first_match ([reference_name_exact, name_exact] @ reference_name_contains #
          [name_contains, loose_match]) recs m = Some (y, reference_name_contains)"
    by (rule first_match_first)
       (use assms(1) y in \<open>auto simp: find_None_iff test_reference_name_contains
          simp del: test.simps(3,4,5)\<close>)
  with y show ?thesis by (simp add: resolvePart_def strategies_def del: first_match.simps)
qed

lemma resolve_name_substring:
  assumes "\<forall>x \<in> set recs. reference_name x \<noteq> Some m \<and> name x \<noteq> Some m \<and> \<not> ref_substring m x"
    and "\<exists>x \<in> set recs. name_substring m x"
  shows "resolvePart (Some recs) m =
           map_option (\<lambda>x. (x, name_contains)) (find (name_substring m) recs)"
proof -
  from find_exists[OF assms(2)] obtain y where y: "find (name_substring m) recs = Some y" by blast
  have "first_match ([reference_name_exact, name_exact, reference_name_contains] @ name_contains #
          [loose_match]) recs m = Some (y, name_contains)"
    by (rule first_match_first)
       (use assms(1) y in \<open>auto simp: find_None_iff test_reference_name_contains
          test_name_contains simp del: test.simps(3,4,5)\<close>)
  with y show ?thesis by (simp add: resolvePart_def strategies_def del: first_match.simps)
qed

lemma resolve_normalized:
  assumes "\<forall>x \<in> set recs. reference_name x \<noteq> Some m \<and> name x \<noteq> Some m \<and> \<not> ref_substring m x \<and>
             \<not> name_substring m x"
    and "\<exists>x \<in> set recs. normalized_match m x"
  shows "resolvePart (Some recs) m =
           map_option (\<lambda>x. (x, loose_match)) (find (normalized_match m) recs)"
proof -
  from find_exists[OF assms(2)] obtain y where y: "find (normalized_match m) recs = Some y" by blast
  have "first_match ([reference_name_exact, name_exact, reference_name_contains, name_contains] @
          loose_match # []) recs m = Some (y, loose_match)"
    by (rule first_match_first)
       (use assms(1) y in \<open>auto simp: find_None_iff test_reference_name_contains
          test_name_contains test_loose_match simp del: test.simps(3,4,5)\<close>)
  with y show ?thesis by (simp add: resolvePart_def strategies_def del: first_match.simps)
qed

text \<open>
  Claim C2. The resolver tries exact reference name, exact name, reference-name
  substring, name substring and normalized substring, in this order, and the first
  strategy that finds a record decides, with the first record it accepts. Each case is
  stated with the predicate of its strategy: an exact reference name wins over
  everything, wherever the record stands; without one an exact name wins; without
  exact matches the first reference-name substring match, then the first name
  substring match, then the first normalized match; and there is no result exactly
  when no record passes any of the five tests. For the mesh \<open>Bracket-12\<close> and
  records with reference names \<open>Bracket-12\<close> and \<open>Bracket\<close>, in either order,
  the first is returned.
\<close>

theorem C2_resolver_order:
  "strategies =
     [reference_name_exact, name_exact, reference_name_contains, name_contains, loose_match] \<and>
   (resolvePart (Some recs) m = Some (r, st) \<longrightarrow>
      find (test st m) recs = Some r \<and>
      (\<forall>st' \<in> set (takeWhile (\<lambda>s. s \<noteq> st) strategies). find (test st' m) recs = None)) \<and>
   ((\<exists>x \<in> set recs. reference_name x = Some m) \<longrightarrow>
      resolvePart (Some recs) m =
        map_option (\<lambda>x. (x, reference_name_exact)) (find (\<lambda>x. reference_name x = Some m) recs)) \<and>
   ((\<forall>x \<in> set recs. reference_name x \<noteq> Some m) \<and> (\<exists>x \<in> set recs. name x = Some m) \<longrightarrow>
      resolvePart (Some recs) m =
        map_option (\<lambda>x. (x, name_exact)) (find (\<lambda>x. name x = Some m) recs)) \<and>
   ((\<forall>x \<in> set recs. reference_name x \<noteq> Some m) \<and> (\<forall>x \<in> set recs. name x \<noteq> Some m) \<longrightarrow>
      resolvePart (Some recs) m =
        first_match [reference_name_contains, name_contains, loose_match] recs m) \<and>
   ((\<forall>x \<in> set recs. reference_name x \<noteq> Some m \<and> name x \<noteq> Some m) \<and>
    (\<exists>x \<in> set recs. ref_substring m x) \<longrightarrow>
      resolvePart (Some recs) m =
        map_option (\<lambda>x. (x, reference_name_contains)) (find (ref_substring m) recs)) \<and>
   ((\<forall>x \<in> set recs. reference_name x \<noteq> Some m \<and> name x \<noteq> Some m \<and> \<not> ref_substring m x) \<and>
    (\<exists>x \<in> set recs. name_substring m x) \<longrightarrow>
      resolvePart (Some recs) m =
        map_option (\<lambda>x. (x, name_contains)) (find (name_substring m) recs)) \<and>
   ((\<forall>x \<in> set recs. reference_name x \<noteq> Some m \<and> name x \<noteq> Some m \<and> \<not> ref_substring m x \<and>
        \<not> name_substring m x) \<and>
    (\<exists>x \<in> set recs. normalized_match m x) \<longrightarrow>
      resolvePart (Some recs) m =
        map_option (\<lambda>x. (x, loose_match)) (find (normalized_match m) recs)) \<and>
   (resolvePart (Some recs) m = None \<longleftrightarrow>
      (\<forall>x \<in> set recs. reference_name x \<noteq> Some m \<and> name x \<noteq> Some m \<and> \<not> ref_substring m x \<and>
         \<not> name_substring m x \<and> \<not> normalized_match m x)) \<and>
   (numeric_suffix s p \<longrightarrow> stripNumericSuffix s = p) \<and>
   ((\<forall>q. \<not> numeric_suffix s q) \<longrightarrow> stripNumericSuffix s = s) \<and>
   (reference_name a = Some ''Bracket-12'' \<and> reference_name b = Some ''Bracket'' \<longrightarrow>
      resolvePart (Some [a, b]) ''Bracket-12'' = Some (a, reference_name_exact) \<and>
      resolvePart (Some [b, a]) ''Bracket-12'' = Some (a, reference_name_exact))"
proof -
  have 1: "resolvePart (Some recs) m = Some (r, st) \<longrightarrow>
      find (test st m) recs = Some r \<and>
      (\<forall>st' \<in> set (takeWhile (\<lambda>s. s \<noteq> st) strategies). find (test st' m) recs = None)"
  proof
    assume "resolvePart (Some recs) m = Some (r, st)"
    then have "first_match strategies recs m = Some (r, st)" by (simp add: resolvePart_def)
    from first_match_sound[OF this]
    show "find (test st m) recs = Some r \<and>
      (\<forall>st' \<in> set (takeWhile (\<lambda>s. s \<noteq> st) strategies). find (test st' m) recs = None)"
      by simp
  qed
  have 2: "(\<exists>x \<in> set recs. reference_name x = Some m) \<longrightarrow>
      resolvePart (Some recs) m =
        map_option (\<lambda>x. (x, reference_name_exact)) (find (\<lambda>x. reference_name x = Some m) recs)"
    using resolve_ref_exact by blast
  have 3: "(\<forall>x \<in> set recs. reference_name x \<noteq> Some m) \<and> (\<exists>x \<in> set recs. name x = Some m) \<longrightarrow>
      resolvePart (Some recs) m =
        map_option (\<lambda>x. (x, name_exact)) (find (\<lambda>x. name x = Some m) recs)"
    using resolve_name_exact by blast
  have 4: "(\<forall>x \<in> set recs. reference_name x \<noteq> Some m) \<and> (\<forall>x \<in> set recs. name x \<noteq> Some m) \<longrightarrow>
      resolvePart (Some recs) m =
        first_match [reference_name_contains, name_contains, loose_match] recs m"
    using resolve_substring by blast
  have 5: "(\<forall>x \<in> set recs. reference_name x \<noteq> Some m \<and> name x \<noteq> Some m) \<and>
    (\<exists>x \<in> set recs. ref_substring m x) \<longrightarrow>
      resolvePart (Some recs) m =
        map_option (\<lambda>x. (x, reference_name_contains)) (find (ref_substring m) recs)"
    using resolve_ref_substring by blast
  have 6: "(\<forall>x \<in> set recs. reference_name x \<noteq> Some m \<and> name x \<noteq> Some m \<and> \<not> ref_substring m x) \<and>
    (\<exists>x \<in> set recs. name_substring m x) \<longrightarrow>
      resolvePart (Some recs) m =
        map_option (\<lambda>x. (x, name_contains)) (find (name_substring m) recs)"
    using resolve_name_substring by blast
  have 7: "(\<forall>x \<in> set recs. reference_name x \<noteq> Some m \<and> name x \<noteq> Some m \<and> \<not> ref_substring m x \<and>
        \<not> name_substring m x) \<and>
    (\<exists>x \<in> set recs. normalized_match m x) \<longrightarrow>
      resolvePart (Some recs) m =
        map_option (\<lambda>x. (x, loose_match)) (find (normalized_match m) recs)"
    using resolve_normalized by blast
  have 8: "numeric_suffix s p \<longrightarrow> stripNumericSuffix s = p"
    using strip_suffix by (auto simp: numeric_suffix_def)
  have 9: "(\<forall>q. \<not> numeric_suffix s q) \<longrightarrow> stripNumericSuffix s = s"
    using strip_no_suffix by blast
  have 10: "reference_name a = Some ''Bracket-12'' \<and> reference_name b = Some ''Bracket'' \<longrightarrow>
      resolvePart (Some [a, b]) ''Bracket-12'' = Some (a, reference_name_exact) \<and>
      resolvePart (Some [b, a]) ''Bracket-12'' = Some (a, reference_name_exact)"
    using bracket_example by blast
  from strategies_def 1 2 3 4 5 6 7 resolve_none_iff[of recs m] 8 9 10 show ?thesis
    by (intro conjI)
qed

theorem C2_resolver_order_witness:
  "resolvePart (Some [bracket, bracket_12]) ''Bracket-12'' = Some (bracket_12, reference_name_exact) \<and>
   resolvePart (Some [bracket_12, bracket]) ''Bracket-12'' = Some (bracket_12, reference_name_exact) \<and>
   resolvePart (Some [bracket_12, bracket]) ''Angle'' = Some (bracket, name_exact) \<and>
   resolvePart (Some [bracket]) ''Bracket-12'' = Some (bracket, reference_name_contains) \<and>
   resolvePart (Some [bracket]) ''Angle-3'' = Some (bracket, name_contains) \<and>
   resolvePart (Some [bracket]) ''bracket_7'' = Some (bracket, loose_match) \<and>
   resolvePart (Some [bracket]) ''zzz'' = None \<and>
   stripNumericSuffix ''Bracket-12'' = ''Bracket'' \<and>
   stripNumericSuffix ''Bracket-'' = ''Bracket-''"
proof -
  have refs: "reference_name bracket_12 = Some ''Bracket-12'' \<and> reference_name bracket = Some ''Bracket''"
    by (simp add: bracket_12_def bracket_def mk_part_def)
  from C2_resolver_order [where recs = "[bracket]" and m = "''zzz''" and r = bracket and st = loose_match and s = "''Bracket-12''" and p = "''Bracket''" and a = bracket_12 and b = bracket]
  have i1: "reference_name bracket_12 = Some ''Bracket-12'' \<and> reference_name bracket = Some ''Bracket'' \<longrightarrow>
      resolvePart (Some [bracket_12, bracket]) ''Bracket-12'' = Some (bracket_12, reference_name_exact) \<and>
      resolvePart (Some [bracket, bracket_12]) ''Bracket-12'' = Some (bracket_12, reference_name_exact)"
    by (elim conjE)
  note w12 = mp[OF i1 refs]
  have h3: "(\<forall>x \<in> set [bracket_12, bracket]. reference_name x \<noteq> Some ''Angle'') \<and>
            (\<exists>x \<in> set [bracket_12, bracket]. name x = Some ''Angle'')" by code_simp
  have f3: "find (\<lambda>x. name x = Some ''Angle'') [bracket_12, bracket] = Some bracket" by code_simp
  from C2_resolver_order [where recs = "[bracket_12, bracket]" and m = "''Angle''" and r = bracket and st = loose_match and s = "''Bracket-12''" and p = "''Bracket''" and a = bracket_12 and b = bracket]
  have i3: "(\<forall>x \<in> set [bracket_12, bracket]. reference_name x \<noteq> Some ''Angle'') \<and>
            (\<exists>x \<in> set [bracket_12, bracket]. name x = Some ''Angle'') \<longrightarrow>
      resolvePart (Some [bracket_12, bracket]) ''Angle'' =
        map_option (\<lambda>x. (x, name_exact)) (find (\<lambda>x. name x = Some ''Angle'') [bracket_12, bracket])"
    by (elim conjE)
  have w3: "resolvePart (Some [bracket_12, bracket]) ''Angle'' = Some (bracket, name_exact)"
    unfolding mp[OF i3 h3] f3 by simp
  have h4: "(\<forall>x \<in> set [bracket]. reference_name x \<noteq> Some ''Bracket-12'' \<and> name x \<noteq> Some ''Bracket-12'') \<and>
            (\<exists>x \<in> set [bracket]. ref_substring ''Bracket-12'' x)" by code_simp
  have f4: "find (ref_substring ''Bracket-12'') [bracket] = Some bracket" by code_simp
  from C2_resolver_order [where recs = "[bracket]" and m = "''Bracket-12''" and r = bracket and st = loose_match and s = "''Bracket-12''" and p = "''Bracket''" and a = bracket_12 and b = bracket]
  have i4: "(\<forall>x \<in> set [bracket]. reference_name x \<noteq> Some ''Bracket-12'' \<and> name x \<noteq> Some ''Bracket-12'') \<and>
            (\<exists>x \<in> set [bracket]. ref_substring ''Bracket-12'' x) \<longrightarrow>
      resolvePart (Some [bracket]) ''Bracket-12'' =
        map_option (\<lambda>x. (x, reference_name_contains)) (find (ref_substring ''Bracket-12'') [bracket])"
    by (elim conjE)
  have w4: "resolvePart (Some [bracket]) ''Bracket-12'' = Some (bracket, reference_name_contains)"
    unfolding mp[OF i4 h4] f4 by simp
  have h5: "(\<forall>x \<in> set [bracket]. reference_name x \<noteq> Some ''Angle-3'' \<and> name x \<noteq> Some ''Angle-3'' \<and>
               \<not> ref_substring ''Angle-3'' x) \<and>
            (\<exists>x \<in> set [bracket]. name_substring ''Angle-3'' x)" by code_simp
  have f5: "find (name_substring ''Angle-3'') [bracket] = Some bracket" by code_simp
  from C2_resolver_order [where recs = "[bracket]" and m = "''Angle-3''" and r = bracket and st = loose_match and s = "''Bracket-12''" and p = "''Bracket''" and a = bracket_12 and b = bracket]
  have i5: "(\<forall>x \<in> set [bracket]. reference_name x \<noteq> Some ''Angle-3'' \<and> name x \<noteq> Some ''Angle-3'' \<and>
               \<not> ref_substring ''Angle-3'' x) \<and>
            (\<exists>x \<in> set [bracket]. name_substring ''Angle-3'' x) \<longrightarrow>
      resolvePart (Some [bracket]) ''Angle-3'' =
        map_option (\<lambda>x. (x, name_contains)) (find (name_substring ''Angle-3'') [bracket])"
    by (elim conjE)
  have w5: "resolvePart (Some [bracket]) ''Angle-3'' = Some (bracket, name_contains)"
    unfolding mp[OF i5 h5] f5 by simp
  have h6: "(\<forall>x \<in> set [bracket]. reference_name x \<noteq> Some ''bracket_7'' \<and> name x \<noteq> Some ''bracket_7'' \<and>
               \<not> ref_substring ''bracket_7'' x \<and> \<not> name_substring ''bracket_7'' x) \<and>
            (\<exists>x \<in> set [bracket]. normalized_match ''bracket_7'' x)" by code_simp
  have f6: "find (normalized_match ''bracket_7'') [bracket] = Some bracket" by code_simp
  from C2_resolver_order [where recs = "[bracket]" and m = "''bracket_7''" and r = bracket and st = loose_match and s = "''Bracket-12''" and p = "''Bracket''" and a = bracket_12 and b = bracket]
  have i6: "(\<forall>x \<in> set [bracket]. reference_name x \<noteq> Some ''bracket_7'' \<and> name x \<noteq> Some ''bracket_7'' \<and>
               \<not> ref_substring ''bracket_7'' x \<and> \<not> name_substring ''bracket_7'' x) \<and>
            (\<exists>x \<in> set [bracket]. normalized_match ''bracket_7'' x) \<longrightarrow>
      resolvePart (Some [bracket]) ''bracket_7'' =
        map_option (\<lambda>x. (x, loose_match)) (find (normalized_match ''bracket_7'') [bracket])"
    by (elim conjE)
  have w6: "resolvePart (Some [bracket]) ''bracket_7'' = Some (bracket, loose_match)"
    unfolding mp[OF i6 h6] f6 by simp
  have h7: "\<forall>x \<in> set [bracket]. reference_name x \<noteq> Some ''zzz'' \<and> name x \<noteq> Some ''zzz'' \<and>
               \<not> ref_substring ''zzz'' x \<and> \<not> name_substring ''zzz'' x \<and>
               \<not> normalized_match ''zzz'' x" by code_simp
  from C2_resolver_order [where recs = "[bracket]" and m = "''zzz''" and r = bracket and st = loose_match and s = "''Bracket-12''" and p = "''Bracket''" and a = bracket_12 and b = bracket]
  have i7: "resolvePart (Some [bracket]) ''zzz'' = None \<longleftrightarrow>
      (\<forall>x \<in> set [bracket]. reference_name x \<noteq> Some ''zzz'' \<and> name x \<noteq> Some ''zzz'' \<and>
         \<not> ref_substring ''zzz'' x \<and> \<not> name_substring ''zzz'' x \<and> \<not> normalized_match ''zzz'' x)"
    by (elim conjE)
  note w7 = iffD2[OF i7 h7]
  have h8: "numeric_suffix ''Bracket-12'' ''Bracket''"
    unfolding numeric_suffix_def
    by (intro exI[of _ "CHR ''-''"] exI[of _ "''12''"]) (simp add: isDigit_def)
  from C2_resolver_order [where recs = "[bracket]" and m = "''zzz''" and r = bracket and st = loose_match and s = "''Bracket-12''" and p = "''Bracket''" and a = bracket_12 and b = bracket]
  have i8: "numeric_suffix ''Bracket-12'' ''Bracket'' \<longrightarrow> stripNumericSuffix ''Bracket-12'' = ''Bracket''"
    by (elim conjE)
  note w8 = mp[OF i8 h8]
  have w9: "stripNumericSuffix ''Bracket-'' = ''Bracket-''" by code_simp
  from w12 w3 w4 w5 w6 w7 w8 w9 show ?thesis by (intro conjI) (elim conjE, assumption)+
qed

text \<open>
  Claim C3. The scene-to-BOM resolver has no strategy that compares the mesh name with
  the decimal id of a record (only the BOM-to-scene lookup of the selection effect
  has one). For a mesh named \<open>7\<close> and a record with id 7 whose names differ from
  \<open>7\<close>, no record is found and the click selects a fallback part; next to a record
  whose reference name contains \<open>7\<close>, that other record is returned.
\<close>

theorem C3_no_id_strategy:
  "resolvePart (Some [housing_7]) ''7'' = None \<and>
   handleSingleClick (Some [housing_7]) (Some \<lparr>clicked_name = ''7'', uuid = ''0a1b2c3d-e4f5''\<rparr>) =
     Some \<lparr> sel_id = IdStr ''mesh_0a1b2c3d'', sel_name = Some ''7'',
            sel_reference_name = Some ''7'', meshName = Some ''7'',
            selectionSource = Some ''3d_model'', matchMethod = None, isFallback = True \<rparr> \<and>
   resolvePart (Some [housing_7, bolt_8]) ''7'' = Some (bolt_8, reference_name_contains)"
  by code_simp

section \<open>Properties of the tree builder\<close>

lemma those_map_Some:
  "those (map f xs) = Some ys \<longleftrightarrow> (\<forall>x \<in> set xs. f x \<noteq> None) \<and> ys = map (\<lambda>x. the (f x)) xs"
  by (induction xs arbitrary: ys) (auto split: option.splits)

lemma buildTree_Suc:
  "buildTree (Suc n) recs p = Some ts \<longleftrightarrow>
     (\<forall>c \<in> set (children_of recs p). buildTree n recs (ref_to c) \<noteq> None) \<and>
     ts = map (\<lambda>c. Node c (the (buildTree n recs (ref_to c)))) (children_of recs p)"
proof -
  have "buildTree (Suc n) recs p = Some ts \<longleftrightarrow>
     (\<forall>c \<in> set (children_of recs p). map_option (Node c) (buildTree n recs (ref_to c)) \<noteq> None) \<and>
     ts = map (\<lambda>c. the (map_option (Node c) (buildTree n recs (ref_to c)))) (children_of recs p)"
    by (simp add: those_map_Some children_of_def)
  also have "\<dots> \<longleftrightarrow> (\<forall>c \<in> set (children_of recs p). buildTree n recs (ref_to c) \<noteq> None) \<and>
     ts = map (\<lambda>c. Node c (the (buildTree n recs (ref_to c)))) (children_of recs p)"
    by (auto simp: option.map_sel)
  finally show ?thesis .
qed

declare buildTree.simps(2) [simp del]

lemma buildTree_mono:
  "buildTree n recs p = Some ts \<Longrightarrow> n \<le> m \<Longrightarrow> buildTree m recs p = Some ts"
proof (induction n arbitrary: p ts m)
  case 0
  then show ?case by simp
next
  case (Suc n)
  from Suc.prems(2) obtain m' where m: "m = Suc m'" "n \<le> m'" by (cases m) auto
  from Suc.prems(1) have a: "\<forall>c \<in> set (children_of recs p). buildTree n recs (ref_to c) \<noteq> None"
    and ts: "ts = map (\<lambda>c. Node c (the (buildTree n recs (ref_to c)))) (children_of recs p)"
    by (simp_all add: buildTree_Suc)
  have eq: "buildTree m' recs (ref_to c) = buildTree n recs (ref_to c)" if "c \<in> set (children_of recs p)" for c
  proof -
    from a that obtain tc where "buildTree n recs (ref_to c) = Some tc" by auto
    with Suc.IH[OF this m(2)] show ?thesis by simp
  qed
  have "buildTree (Suc m') recs p = Some ts"
    unfolding buildTree_Suc using a ts eq by (auto intro!: map_cong)
  with m show ?case by simp
qed

lemma uniform_fuel:
  "\<forall>c \<in> set cs. \<exists>n. buildTree n recs (f c) \<noteq> None \<Longrightarrow>
   \<exists>N. \<forall>c \<in> set cs. buildTree N recs (f c) \<noteq> None"
proof (induction cs)
  case Nil
  then show ?case by simp
next
  case (Cons c cs)
  then obtain N where N: "\<forall>c \<in> set cs. buildTree N recs (f c) \<noteq> None" by auto
  from Cons.prems obtain n where n: "buildTree n recs (f c) \<noteq> None" by auto
  have "\<forall>d \<in> set (c # cs). buildTree (max n N) recs (f d) \<noteq> None"
  proof
    fix d assume "d \<in> set (c # cs)"
    then consider "d = c" | "d \<in> set cs" by auto
    then show "buildTree (max n N) recs (f d) \<noteq> None"
    proof cases
      case 1
      from n obtain t where "buildTree n recs (f c) = Some t" by auto
      from buildTree_mono[OF this, of "max n N"] 1 show ?thesis by simp
    next
      case 2
      with N obtain t where "buildTree N recs (f d) = Some t" by auto
      from buildTree_mono[OF this, of "max n N"] show ?thesis by simp
    qed
  qed
  then show ?case by blast
qed

lemma below_in: "below recs p r \<Longrightarrow> r \<in> set recs"
  by (induction rule: below.induct) auto

lemma below_trans_aux:
  "below recs pc q \<Longrightarrow> pc = ref_to c \<Longrightarrow> below recs p c \<Longrightarrow> below recs p q"
  by (induction rule: below.induct) (auto intro: below.intros)

lemma below_trans: "below recs (ref_to c) q \<Longrightarrow> below recs p c \<Longrightarrow> below recs p q"
  using below_trans_aux by blast

lemma below_parent:
  "below recs p q \<Longrightarrow> parent_id q = p \<or> (\<exists>x. below recs p x \<and> parent_id q = ref_to x)"
  by (auto elim: below.cases)

lemma id_inj:
  "distinct (map rec_id recs) \<Longrightarrow> x \<in> set recs \<Longrightarrow> y \<in> set recs \<Longrightarrow> rec_id x = rec_id y \<Longrightarrow> x = y"
  by (auto simp: distinct_map dest: inj_onD)

lemma reachable_acyclic:
  assumes d: "distinct (map rec_id recs)"
  shows "below recs p r \<Longrightarrow> p = Null \<Longrightarrow> \<not> below recs (ref_to r) r"
proof (induction rule: below.induct)
  case (child r p)
  show ?case
  proof
    assume "below recs (ref_to r) r"
    from below_parent[OF this] child show False by auto
  qed
next
  case (desc p q r)
  then have ih: "\<not> below recs (ref_to q) q" by simp
  have qin: "q \<in> set recs" using desc.hyps(1) by (rule below_in)
  show ?case
  proof
    assume b: "below recs (ref_to r) r"
    from below_parent[OF b] consider "parent_id r = ref_to r"
      | x where "below recs (ref_to r) x" "parent_id r = ref_to x" by blast
    then show False
    proof cases
      case 1
      with desc.hyps(3) have "rec_id q = rec_id r" by simp
      with id_inj[OF d qin desc.hyps(2)] have "q = r" by simp
      with b ih show False by simp
    next
      case 2
      with desc.hyps(3) have "rec_id x = rec_id q" by simp
      with id_inj[OF d below_in[OF 2(1)] qin] have "x = q" by simp
      with 2 have "below recs (ref_to r) q" by simp
      moreover have "below recs (ref_to q) r" using desc.hyps(2,3) by (auto intro: below.child)
      ultimately have "below recs (ref_to q) q" by (rule below_trans)
      with ih show False by simp
    qed
  qed
qed

lemma sibling_not_below:
  assumes "c' \<in> set recs" "parent_id c = p" "parent_id c' = p" "\<not> below recs (ref_to c') c'"
  shows "\<not> below recs (ref_to c') c"
proof
  assume b: "below recs (ref_to c') c"
  from below_parent[OF b] consider "parent_id c = ref_to c'"
    | x where "below recs (ref_to c') x" "parent_id c = ref_to x" by blast
  then show False
  proof cases
    case 1
    with assms have "below recs (ref_to c') c'" by (auto intro: below.child)
    with assms show False by simp
  next
    case 2
    with assms have "below recs (ref_to x) c'" by (auto intro: below.child)
    from below_trans[OF this 2(1)] assms show False by simp
  qed
qed

lemma disjoint_siblings:
  assumes d: "distinct (map rec_id recs)"
    and c: "c \<in> set recs" "parent_id c = p" "\<not> below recs (ref_to c) c"
    and c': "c' \<in> set recs" "parent_id c' = p" "\<not> below recs (ref_to c') c'"
    and ne: "c \<noteq> c'"
  shows "below recs pc q \<Longrightarrow> pc = ref_to c \<Longrightarrow> \<not> below recs (ref_to c') q"
proof (induction rule: below.induct)
  case (child q pc)
  show ?case
  proof
    assume b: "below recs (ref_to c') q"
    from below_parent[OF b] consider "parent_id q = ref_to c'"
      | x where "below recs (ref_to c') x" "parent_id q = ref_to x" by blast
    then show False
    proof cases
      case 1
      with child have "rec_id c = rec_id c'" by simp
      with id_inj[OF d c(1) c'(1)] ne show False by simp
    next
      case 2
      with child have "rec_id x = rec_id c" by simp
      with id_inj[OF d below_in[OF 2(1)] c(1)] have "x = c" by simp
      with 2 have "below recs (ref_to c') c" by simp
      with sibling_not_below[OF c'(1) c(2) c'(2) c'(3)] show False by simp
    qed
  qed
next
  case (desc pc q0 q)
  then have ih: "\<not> below recs (ref_to c') q0" and b0: "below recs (ref_to c) q0" by simp_all
  show ?case
  proof
    assume b: "below recs (ref_to c') q"
    from below_parent[OF b] consider "parent_id q = ref_to c'"
      | x where "below recs (ref_to c') x" "parent_id q = ref_to x" by blast
    then show False
    proof cases
      case 1
      with desc.hyps(3) have "rec_id q0 = rec_id c'" by simp
      with id_inj[OF d below_in[OF b0] c'(1)] have "q0 = c'" by simp
      with b0 have "below recs (ref_to c) c'" by simp
      with sibling_not_below[OF c(1) c'(2) c(2) c(3)] show False by simp
    next
      case 2
      with desc.hyps(3) have "rec_id x = rec_id q0" by simp
      with id_inj[OF d below_in[OF 2(1)] below_in[OF b0]] have "x = q0" by simp
      with 2 ih show False by simp
    qed
  qed
qed

lemma records_Node: "records (Node c ts) = c # concat (map records ts)"
proof -
  have r: "records = (\<lambda>t. map item (subtrees t))" by (rule ext) (simp add: records_def)
  show ?thesis unfolding r by (simp add: map_concat comp_def)
qed

lemma children_of_iff: "c \<in> set (children_of recs p) \<longleftrightarrow> c \<in> set recs \<and> parent_id c = p"
  by (simp add: children_of_def)

lemma below_cover:
  "{q. below recs p q} = (\<Union>c \<in> set (children_of recs p). insert c {q. below recs (ref_to c) q})"
proof (intro equalityI subsetI)
  fix q assume "q \<in> {q. below recs p q}"
  then have "below recs p q" by simp
  then show "q \<in> (\<Union>c \<in> set (children_of recs p). insert c {q. below recs (ref_to c) q})"
  proof (induction rule: below.induct)
    case (child r p)
    then show ?case by (auto simp: children_of_iff)
  next
    case (desc p q0 q)
    then obtain c where c: "c \<in> set (children_of recs p)" "q0 = c \<or> below recs (ref_to c) q0" by auto
    from c(2) desc.hyps(2,3) have "below recs (ref_to c) q"
      by (auto intro: below.child below.desc)
    with c(1) show ?case by auto
  qed
next
  fix q assume "q \<in> (\<Union>c \<in> set (children_of recs p). insert c {q. below recs (ref_to c) q})"
  then obtain c where c: "c \<in> set (children_of recs p)" "q = c \<or> below recs (ref_to c) q" by auto
  from c(1) have bc: "below recs p c" by (auto simp: children_of_iff intro: below.child)
  with c(2) below_trans show "q \<in> {q. below recs p q}" by auto
qed

lemma buildTree_correct:
  assumes d: "distinct (map rec_id recs)"
  shows "buildTree n recs p = Some ts \<Longrightarrow>
         (\<forall>q. below recs p q \<longrightarrow> \<not> below recs (ref_to q) q) \<Longrightarrow>
         set (concat (map records ts)) = {q. below recs p q} \<and> distinct (concat (map records ts))"
proof (induction n arbitrary: p ts)
  case 0
  then show ?case by simp
next
  case (Suc n)
  define sub where "sub = (\<lambda>c. the (buildTree n recs (ref_to c)))"
  define R where "R = (\<lambda>c. c # concat (map records (sub c)))"
  from Suc.prems(1) have a: "\<forall>c \<in> set (children_of recs p). buildTree n recs (ref_to c) \<noteq> None"
    and ts: "ts = map (\<lambda>c. Node c (sub c)) (children_of recs p)"
    by (simp_all add: buildTree_Suc sub_def)
  have bk: "below recs p c" if "c \<in> set (children_of recs p)" for c
    using that by (auto simp: children_of_iff intro: below.child)
  have acyc: "\<not> below recs (ref_to c) c" if "c \<in> set (children_of recs p)" for c
    using bk[OF that] Suc.prems(2) by blast
  have ih: "set (concat (map records (sub c))) = {q. below recs (ref_to c) q} \<and>
            distinct (concat (map records (sub c)))" if "c \<in> set (children_of recs p)" for c
  proof -
    from a that have "buildTree n recs (ref_to c) = Some (sub c)" by (auto simp: sub_def)
    moreover have "\<forall>q. below recs (ref_to c) q \<longrightarrow> \<not> below recs (ref_to q) q"
      using below_trans[OF _ bk[OF that]] Suc.prems(2) by blast
    ultimately show ?thesis by (rule Suc.IH)
  qed
  have setR: "set (R c) = insert c {q. below recs (ref_to c) q}" if "c \<in> set (children_of recs p)" for c
    using ih[OF that] by (simp add: R_def)
  have cc: "concat (map records ts) = concat (map R (children_of recs p))"
    by (simp add: ts comp_def records_Node R_def)
  have "set (concat (map R (children_of recs p))) = (\<Union>c \<in> set (children_of recs p). set (R c))" by simp
  also have "\<dots> = (\<Union>c \<in> set (children_of recs p). insert c {q. below recs (ref_to c) q})"
    using setR by simp
  also have "\<dots> = {q. below recs p q}" by (rule below_cover[symmetric])
  finally have s: "set (concat (map records ts)) = {q. below recs p q}" by (simp add: cc)
  have drecs: "distinct recs" using d by (simp add: distinct_map)
  then have dk: "distinct (children_of recs p)" by (simp add: children_of_def)
  have "inj_on R (set (children_of recs p))" by (rule inj_onI) (simp add: R_def)
  with dk have d1: "distinct (map R (children_of recs p))" by (simp add: distinct_map)
  have d2: "distinct ys" if "ys \<in> set (map R (children_of recs p))" for ys
  proof -
    from that obtain c where c: "c \<in> set (children_of recs p)" "ys = R c" by auto
    from ih[OF c(1)] acyc[OF c(1)] show ?thesis by (simp add: c(2) R_def)
  qed
  have d3: "set ys \<inter> set zs = {}"
    if "ys \<in> set (map R (children_of recs p))" "zs \<in> set (map R (children_of recs p))" "ys \<noteq> zs" for ys zs
  proof -
    from that obtain c c' where c: "c \<in> set (children_of recs p)" "ys = R c"
      and c': "c' \<in> set (children_of recs p)" "zs = R c'" by auto
    with that(3) have ne: "c \<noteq> c'" by auto
    from c(1) c'(1) have m: "c \<in> set recs" "parent_id c = p" "c' \<in> set recs" "parent_id c' = p"
      by (simp_all add: children_of_iff)
    have n1: "\<not> below recs (ref_to c') c"
      using sibling_not_below[OF m(3) m(2) m(4) acyc[OF c'(1)]] .
    have n2: "\<not> below recs (ref_to c) c'"
      using sibling_not_below[OF m(1) m(4) m(2) acyc[OF c(1)]] .
    have n3: "\<not> (below recs (ref_to c) q \<and> below recs (ref_to c') q)" for q
      using disjoint_siblings[OF d m(1) m(2) acyc[OF c(1)] m(3) m(4) acyc[OF c'(1)] ne] by blast
    show ?thesis
      using ne n1 n2 n3 by (auto simp: c(2) c'(2) setR[OF c(1)] setR[OF c'(1)])
  qed
  have "distinct (concat (map R (children_of recs p)))"
    using d1 d2 d3 by (rule distinct_concat)
  with s cc show ?case by simp
qed

lemma below_finite: "finite {q. below recs p q}"
  by (rule finite_subset[of _ "set recs"]) (auto dest: below_in)

lemma buildTree_terminates:
  "(\<forall>q. below recs p q \<longrightarrow> \<not> below recs (ref_to q) q) \<Longrightarrow> \<exists>n ts. buildTree n recs p = Some ts"
proof (induction "card {q. below recs p q}" arbitrary: p rule: less_induct)
  case less
  have "\<exists>n. buildTree n recs (ref_to c) \<noteq> None" if c: "c \<in> set (children_of recs p)" for c
  proof -
    from c have bc: "below recs p c" by (auto simp: children_of_iff intro: below.child)
    with less.prems have nc: "\<not> below recs (ref_to c) c" by blast
    have sub: "{q. below recs (ref_to c) q} \<subseteq> {q. below recs p q}"
      using below_trans[OF _ bc] by blast
    with bc nc have "{q. below recs (ref_to c) q} \<subset> {q. below recs p q}" by blast
    then have lt: "card {q. below recs (ref_to c) q} < card {q. below recs p q}"
      by (rule psubset_card_mono[OF below_finite])
    have "\<forall>q. below recs (ref_to c) q \<longrightarrow> \<not> below recs (ref_to q) q"
      using sub less.prems by blast
    from less.hyps[OF lt this] show ?thesis by auto
  qed
  then have "\<forall>c \<in> set (children_of recs p). \<exists>n. buildTree n recs (ref_to c) \<noteq> None" by blast
  from uniform_fuel[OF this] obtain N where
    "\<forall>c \<in> set (children_of recs p). buildTree N recs (ref_to c) \<noteq> None" by blast
  then have "buildTree (Suc N) recs p =
      Some (map (\<lambda>c. Node c (the (buildTree N recs (ref_to c)))) (children_of recs p))"
    by (simp add: buildTree_Suc)
  then show ?case by blast
qed

lemma buildTree_items:
  "buildTree n recs p = Some ts \<Longrightarrow> map item ts = children_of recs p"
  by (cases n) (auto simp: buildTree_Suc comp_def)

text \<open>
  Claim C1 (amended). For a record list with unique ids in which exactly one record has
  \<open>parent_id\<close> \<open>null\<close>, \<open>buildTree(null)\<close> returns, and returns exactly one
  tree: its root is that record, no other node is a root, and its nodes are the records
  reachable from the root, each exactly once; their number is the length of the list
  less the unreachable records, which is the whole list when every record is reachable.
\<close>

theorem C1_buildTree_single_root:
  assumes d: "distinct (map rec_id recs)"
    and one: "length (filter (\<lambda>r. parent_id r = Null) recs) = 1"
  shows "\<exists>fuel t.
           buildTree fuel recs Null = Some [t] \<and>
           (\<forall>fuel' \<ge> fuel. hierarchicalData fuel' (Some recs) = Some (Some t)) \<and>
           parent_id (item t) = Null \<and>
           length (filter (\<lambda>r. parent_id r = Null) (records t)) = 1 \<and>
           distinct (records t) \<and>
           set (records t) = {r \<in> set recs. reachable recs r} \<and>
           length (records t) = length recs - length (filter (\<lambda>r. \<not> reachable recs r) recs) \<and>
           ((\<forall>r \<in> set recs. reachable recs r) \<longrightarrow>
              set (records t) = set recs \<and> length (records t) = length recs)"
proof -
  have acyc: "\<forall>q. below recs Null q \<longrightarrow> \<not> below recs (ref_to q) q"
    using reachable_acyclic[OF d] by blast
  from buildTree_terminates[OF this] obtain n ts where b: "buildTree n recs Null = Some ts"
    by blast
  from buildTree_items[OF b] one have "length ts = 1"
    by (metis children_of_def length_map)
  then obtain t where ts: "ts = [t]" by (cases ts) auto
  from buildTree_items[OF b] ts have k: "children_of recs Null = [item t]" by simp
  then have "item t \<in> set (children_of recs Null)" by simp
  then have root: "parent_id (item t) = Null" by (simp add: children_of_iff)
  from buildTree_correct[OF d b acyc] ts
  have s: "set (records t) = {q. below recs Null q}" and dr: "distinct (records t)" by simp_all
  have s': "set (records t) = {r \<in> set recs. reachable recs r}"
    using s below_in by (auto simp: reachable_def)
  have drecs: "distinct recs" using d by (simp add: distinct_map)
  have h: "hierarchicalData fuel' (Some recs) = Some (Some t)" if "n \<le> fuel'" for fuel'
    using buildTree_mono[OF b that] by (simp add: hierarchicalData_def ts)
  have "length (records t) = card (set (records t))" using dr by (simp add: distinct_card)
  also have "\<dots> = card (set (filter (reachable recs) recs))" by (simp add: s')
  also have "\<dots> = length (filter (reachable recs) recs)"
    using drecs by (intro distinct_card) simp
  finally have len: "length (records t) = length (filter (reachable recs) recs)" .
  have "length (filter (reachable recs) recs) + length (filter (\<lambda>r. \<not> reachable recs r) recs) = length recs"
    by (rule sum_length_filter_compl)
  with len have len': "length (records t) = length recs - length (filter (\<lambda>r. \<not> reachable recs r) recs)"
    by simp
  have wf: "set (records t) = set recs \<and> length (records t) = length recs"
    if "\<forall>r \<in> set recs. reachable recs r"
  proof -
    from that have "filter (\<lambda>r. \<not> reachable recs r) recs = []" by (simp add: filter_empty_conv)
    with len' s' that show ?thesis by auto
  qed
  have "set (filter (\<lambda>r. parent_id r = Null) (records t)) \<subseteq> set (children_of recs Null)"
    using s' by (auto simp: children_of_iff)
  with k have "set (filter (\<lambda>r. parent_id r = Null) (records t)) \<subseteq> {item t}" by simp
  moreover have "item t \<in> set (filter (\<lambda>r. parent_id r = Null) (records t))"
    using root by (cases t) (simp add: records_Node)
  ultimately have "set (filter (\<lambda>r. parent_id r = Null) (records t)) = {item t}" by blast
  moreover have "distinct (filter (\<lambda>r. parent_id r = Null) (records t))" using dr by simp
  ultimately have oneroot: "length (filter (\<lambda>r. parent_id r = Null) (records t)) = 1"
    by (metis distinct_card card.empty card_insert_disjoint empty_iff finite.emptyI One_nat_def)
  from b ts h root oneroot dr s' len' wf show ?thesis by blast
qed

theorem C1_buildTree_single_root_witness:
  "distinct (map rec_id shaft_bom) \<and>
   length (filter (\<lambda>r. parent_id r = Null) shaft_bom) = 1 \<and>
   (\<exists>fuel t.
      buildTree fuel shaft_bom Null = Some [t] \<and>
      (\<forall>fuel' \<ge> fuel. hierarchicalData fuel' (Some shaft_bom) = Some (Some t)) \<and>
      parent_id (item t) = Null \<and>
      length (filter (\<lambda>r. parent_id r = Null) (records t)) = 1 \<and>
      distinct (records t) \<and>
      set (records t) = {r \<in> set shaft_bom. reachable shaft_bom r} \<and>
      length (records t) =
        length shaft_bom - length (filter (\<lambda>r. \<not> reachable shaft_bom r) shaft_bom) \<and>
      ((\<forall>r \<in> set shaft_bom. reachable shaft_bom r) \<longrightarrow>
         set (records t) = set shaft_bom \<and> length (records t) = length shaft_bom))"
proof -
  have d: "distinct (map rec_id shaft_bom)"
    by (simp add: shaft_bom_def assy_1_def shaft_01_def shaft_02_def stray_9_def mk_part_def)
  have one: "length (filter (\<lambda>r. parent_id r = Null) shaft_bom) = 1"
    by (simp add: shaft_bom_def assy_1_def shaft_01_def shaft_02_def stray_9_def mk_part_def)
  from C1_buildTree_single_root [OF d one] d one show ?thesis by blast
qed

lemma shaft_bom_tree:
  "buildTree 3 shaft_bom Null = Some [Node assy_1 [Node shaft_01 [], Node shaft_02 []]]"
  by code_simp

text \<open>
  Claim C1 as stated counts a missing \<open>parent_id\<close> as "no parent". \<open>buildTree\<close>
  compares with \<open>=== null\<close>, which a missing key (\<open>undefined\<close>) does not satisfy:
  the only record without a parent is then not found, and there is no hierarchy.
\<close>

theorem C1_absent_parent_counterexample:
  "distinct (map rec_id absent_root_bom) \<and>
   length (filter lacks_parent absent_root_bom) = 1 \<and>
   buildTree 1 absent_root_bom Null = Some [] \<and>
   hierarchicalData 1 (Some absent_root_bom) = Some None \<and>
   hierarchicalData 3 (Some absent_root_bom) = Some None"
  by code_simp

section \<open>Properties of the search filter\<close>

lemma filterNodeBy_simp:
  "filterNodeBy P (Node it cs) =
     (if P it \<or> kept_children P cs \<noteq> [] then Some (Node it (kept_children P cs)) else None)"
  by (simp add: kept_children_def Let_def)

declare filterNodeBy.simps [simp del]

lemma kept_children_Nil [simp]: "kept_children P [] = []"
  by (simp add: kept_children_def)

lemma kept_children_Cons [simp]:
  "kept_children P (c # cs) =
     (case filterNodeBy P c of None \<Rightarrow> kept_children P cs | Some c' \<Rightarrow> c' # kept_children P cs)"
  by (auto simp: kept_children_def split: option.splits)

lemma kept_children_set:
  "set (kept_children P cs) = {c'. \<exists>c \<in> set cs. filterNodeBy P c = Some c'}"
  by (induction cs) (auto split: option.splits)

lemma self_in_subtrees [simp]: "n \<in> set (subtrees n)"
  by (cases n) simp

lemma has_match_Node:
  "has_match P (Node it cs) \<longleftrightarrow> P it \<or> (\<exists>c \<in> set cs. has_match P c)"
  by (auto simp: has_match_def list_ex_iff)

lemma filterNodeBy_some_iff: "filterNodeBy P n \<noteq> None \<longleftrightarrow> has_match P n"
proof (induction n)
  case (Node it cs)
  have "kept_children P cs \<noteq> [] \<longleftrightarrow> (\<exists>c \<in> set cs. filterNodeBy P c \<noteq> None)"
    using kept_children_set[of P cs] by (auto simp: set_empty[symmetric] simp del: set_empty)
  also have "\<dots> \<longleftrightarrow> (\<exists>c \<in> set cs. has_match P c)"
    using Node.IH by blast
  finally show ?case
    by (simp add: filterNodeBy_simp has_match_Node)
qed






lemma chains_nonempty: "ch \<in> set (chains n) \<Longrightarrow> ch \<noteq> []"
  by (cases n) auto

lemma filterNodeBy_chain:
  "ch \<in> set (chains n) \<Longrightarrow> P (last ch) \<Longrightarrow>
     \<exists>n'. filterNodeBy P n = Some n' \<and> ch \<in> set (chains n')"
proof (induction n arbitrary: ch)
  case (Node it cs)
  show ?case
  proof (cases "ch = [it]")
    case True
    with Node.prems show ?thesis by (simp add: filterNodeBy_simp)
  next
    case False
    with Node.prems obtain c ch' where c: "c \<in> set cs" "ch' \<in> set (chains c)" "ch = it # ch'"
      by auto
    then have "ch' \<noteq> []" using chains_nonempty by blast
    with c Node.prems have "P (last ch')" by simp
    from Node.IH[OF c(1) c(2) this] obtain c' where
      c': "filterNodeBy P c = Some c'" "ch' \<in> set (chains c')" by blast
    with c(1) have "c' \<in> set (kept_children P cs)" by (auto simp: kept_children_set)
    with c' c(3) show ?thesis by (auto simp: filterNodeBy_simp)
  qed
qed


declare digits.simps [simp del]

lemma of_char_toLowerChar:
  "(of_char (toLowerChar x) :: nat) =
     (let n = of_char x in
      if (65 \<le> n \<and> n \<le> 90) \<or> (192 \<le> n \<and> n \<le> 222 \<and> n \<noteq> 215) then n + 32 else n)"
  by (auto simp: toLowerChar_def Let_def)

lemma id_char_code: "id_char c \<longleftrightarrow> (48 \<le> (of_char c :: nat) \<and> (of_char c :: nat) \<le> 57) \<or> (of_char c :: nat) = 45"
proof -
  have "c = CHR ''-'' \<longleftrightarrow> (of_char c :: nat) = of_char (CHR ''-'')"
    by (simp only: of_char_eq_iff)
  then show ?thesis by (simp add: id_char_def isDigit_def)
qed

lemma toLowerChar_id_char: "id_char (toLowerChar x) \<Longrightarrow> toLowerChar x = x"
proof -
  assume a: "id_char (toLowerChar x)"
  then have "(of_char (toLowerChar x) :: nat) \<le> 57" by (auto simp: id_char_code)
  then have "\<not> ((65 \<le> (of_char x :: nat) \<and> (of_char x :: nat) \<le> 90) \<or> (192 \<le> (of_char x :: nat) \<and> (of_char x :: nat) \<le> 222 \<and> (of_char x :: nat) \<noteq> 215))"
    by (auto simp: of_char_toLowerChar Let_def split: if_splits)
  then show ?thesis unfolding toLowerChar_def Let_def by (simp only: if_False)
qed

lemma toLowerChar_fix: "id_char x \<Longrightarrow> toLowerChar x = x"
  by (auto simp: id_char_code toLowerChar_def Let_def)

lemma digit_char_id: "d < 10 \<Longrightarrow> id_char (digit_char d)"
  by (simp add: id_char_code digit_char_def)

lemma digits_id_char: "\<forall>c \<in> set (digits n). id_char c"
proof (induction n rule: digits.induct)
  case (1 n)
  show ?case
  proof (cases "n < 10")
    case True
    then show ?thesis by (subst digits.simps) (simp add: digit_char_id)
  next
    case False
    with 1 show ?thesis by (subst digits.simps) (simp add: digit_char_id)
  qed
qed

lemma digits_nonempty: "digits n \<noteq> []"
  by (subst digits.simps) simp

lemma toString_id_char: "\<forall>c \<in> set (toString i). id_char c"
  using digits_id_char by (simp add: toString_def id_char_def)

lemma toString_nonempty: "toString i \<noteq> []"
  by (simp add: toString_def digits_nonempty)

lemma toLowerCase_fix: "\<forall>c \<in> set s. id_char c \<Longrightarrow> toLowerCase s = s"
  by (induction s) (simp_all add: toLowerCase_def toLowerChar_fix)

lemma toLowerCase_back: "\<forall>c \<in> set (toLowerCase s). id_char c \<Longrightarrow> toLowerCase s = s"
proof (induction s)
  case Nil
  then show ?case by (simp add: toLowerCase_def)
next
  case (Cons x xs)
  from Cons.prems have "id_char (toLowerChar x)" by (simp add: toLowerCase_def)
  then have "toLowerChar x = x" by (rule toLowerChar_id_char)
  moreover from Cons have "toLowerCase xs = xs" by (simp add: toLowerCase_def)
  ultimately show ?case by (simp add: toLowerCase_def)
qed

lemma sublist_set: "sublist xs ys \<Longrightarrow> set xs \<subseteq> set ys"
  by (auto simp: sublist_def)

lemma includes_id_case_insensitive:
  "js_includes (toString i) q \<longleftrightarrow> js_includes (toLowerCase (toString i)) (toLowerCase q)"
proof -
  have fx: "toLowerCase (toString i) = toString i"
    using toString_id_char by (rule toLowerCase_fix)
  show ?thesis
  proof
    assume "js_includes (toString i) q"
    then have s: "sublist q (toString i)" by (simp add: js_includes_def)
    then have "\<forall>c \<in> set q. id_char c" using sublist_set toString_id_char by blast
    then have "toLowerCase q = q" by (rule toLowerCase_fix)
    with s fx show "js_includes (toLowerCase (toString i)) (toLowerCase q)"
      by (simp add: js_includes_def)
  next
    assume "js_includes (toLowerCase (toString i)) (toLowerCase q)"
    then have s: "sublist (toLowerCase q) (toString i)" by (simp add: js_includes_def fx)
    then have "\<forall>c \<in> set (toLowerCase q). id_char c" using sublist_set toString_id_char by blast
    then have "toLowerCase q = q" by (rule toLowerCase_back)
    with s show "js_includes (toString i) q" by (simp add: js_includes_def)
  qed
qed

lemma node_matches_iff:
  "node_matches q r \<longleftrightarrow>
     (\<exists>s. reference_name r = Some s \<and> ci_contains s q) \<or>
     (\<exists>s. name r = Some s \<and> ci_contains s q) \<or>
     ci_contains (toString (rec_id r)) q"
  using includes_id_case_insensitive[of "rec_id r" q] toString_nonempty[of "rec_id r"]
  by (auto simp: node_matches_def guarded_def ci_contains_def js_includes_def split: option.splits)


lemma filteredData_nonempty_query:
  "q \<noteq> [] \<Longrightarrow> filteredData q (Some t) = filterNodeBy (node_matches q) t"
  by (simp add: filteredData_def filterNode_def)



lemma motor_tree_filtered:
  "filteredData ''motor'' (Some motor_tree) = Some (Node assy_1 [Node drive_2 [Node motor_3 []]])"
  by code_simp

text \<open>
  The older \<open>BOMTreeView\<close> tests the reference name and the id only: there a node
  whose name alone contains the query does not match.
\<close>

lemma node_matches_legacy_iff:
  "node_matches_legacy q r \<longleftrightarrow>
     (\<exists>s. reference_name r = Some s \<and> ci_contains s q) \<or> ci_contains (toString (rec_id r)) q"
  using includes_id_case_insensitive[of "rec_id r" q] toString_nonempty[of "rec_id r"]
  by (auto simp: node_matches_legacy_def guarded_def ci_contains_def js_includes_def
      split: option.splits)

lemma node_matches_legacy_ignores_name:
  "node_matches_legacy q (r\<lparr>name := n\<rparr>) = node_matches_legacy q r"
  by (simp add: node_matches_legacy_def)

lemma legacy_filter_keeps_ancestors:
  "ch \<in> set (chains t) \<Longrightarrow> node_matches_legacy q (last ch) \<Longrightarrow>
     \<exists>t'. filterNode_legacy q t = Some t' \<and> ch \<in> set (chains t')"
  unfolding filterNode_legacy_def by (rule filterNodeBy_chain)

lemma legacy_filter_motor: "filteredData_legacy ''motor'' (Some motor_tree) = None"
  by code_simp

text \<open>
  Claim C6 (amended). In \<open>DynamicBOMTreeView\<close> a node matches exactly when the
  query occurs, ignoring case, in its reference name, in its name or in the decimal
  string of its id (the id is compared as it is, which for strings of digits is the same
  test). In the older \<open>BOMTreeView\<close> the test is the same over the reference name
  and the id only: the name is not looked at. In both, the empty query returns the
  hierarchy as it is, and a query that no node matches returns \<open>null\<close>.
\<close>

theorem C6_match_predicate:
  "(node_matches q r \<longleftrightarrow>
      (\<exists>s. reference_name r = Some s \<and> ci_contains s q) \<or>
      (\<exists>s. name r = Some s \<and> ci_contains s q) \<or>
      ci_contains (toString (rec_id r)) q) \<and>
   filteredData [] h = h \<and>
   (q \<noteq> [] \<and> (\<forall>m \<in> set (subtrees t). \<not> node_matches q (item m)) \<longrightarrow>
      filteredData q (Some t) = None) \<and>
   (node_matches_legacy q r \<longleftrightarrow>
      (\<exists>s. reference_name r = Some s \<and> ci_contains s q) \<or>
      ci_contains (toString (rec_id r)) q) \<and>
   filteredData_legacy [] h = h \<and>
   (q \<noteq> [] \<and> (\<forall>m \<in> set (subtrees t). \<not> node_matches_legacy q (item m)) \<longrightarrow>
      filteredData_legacy q (Some t) = None)"
proof -
  have e: "filteredData [] h = h" by (simp add: filteredData_def split: option.splits)
  have e': "filteredData_legacy [] h = h"
    by (simp add: filteredData_legacy_def split: option.splits)
  have n: "q \<noteq> [] \<and> (\<forall>m \<in> set (subtrees t). \<not> node_matches q (item m)) \<longrightarrow>
      filteredData q (Some t) = None"
  proof
    assume a: "q \<noteq> [] \<and> (\<forall>m \<in> set (subtrees t). \<not> node_matches q (item m))"
    then have "\<not> has_match (node_matches q) t" by (simp add: has_match_def list_ex_iff)
    then have "filterNodeBy (node_matches q) t = None" using filterNodeBy_some_iff by blast
    with a show "filteredData q (Some t) = None" by (simp add: filteredData_nonempty_query)
  qed
  have n': "q \<noteq> [] \<and> (\<forall>m \<in> set (subtrees t). \<not> node_matches_legacy q (item m)) \<longrightarrow>
      filteredData_legacy q (Some t) = None"
  proof
    assume a: "q \<noteq> [] \<and> (\<forall>m \<in> set (subtrees t). \<not> node_matches_legacy q (item m))"
    then have "\<not> has_match (node_matches_legacy q) t" by (simp add: has_match_def list_ex_iff)
    then have "filterNodeBy (node_matches_legacy q) t = None"
      using filterNodeBy_some_iff by blast
    with a show "filteredData_legacy q (Some t) = None"
      by (simp add: filteredData_legacy_def filterNode_legacy_def)
  qed
  from node_matches_iff[of q r] e n node_matches_legacy_iff[of q r] e' n' show ?thesis
    by (intro conjI)
qed

theorem C6_match_predicate_witness:
  "''xyz'' \<noteq> [] \<and> \<not> has_match (node_matches ''xyz'') motor_tree \<and>
   filteredData ''xyz'' (Some motor_tree) = None \<and>
   filteredData [] (Some motor_tree) = Some motor_tree \<and>
   node_matches ''STEPPER'' motor_3 \<and> ci_contains ''Stepper Motor'' ''STEPPER'' \<and>
   \<not> has_match (node_matches_legacy ''xyz'') motor_tree \<and>
   filteredData_legacy ''xyz'' (Some motor_tree) = None \<and>
   filteredData_legacy [] (Some motor_tree) = Some motor_tree \<and>
   node_matches_legacy ''sm-07'' motor_3 \<and> ci_contains ''SM-07'' ''sm-07''"
proof -
  have a: "\<forall>m \<in> set (subtrees motor_tree). \<not> node_matches ''xyz'' (item m)" by code_simp
  have a': "\<forall>m \<in> set (subtrees motor_tree). \<not> node_matches_legacy ''xyz'' (item m)"
    by code_simp
  have b: "ci_contains ''Stepper Motor'' ''STEPPER''" by code_simp
  have b': "ci_contains ''SM-07'' ''sm-07''" by code_simp
  have c: "name motor_3 = Some ''Stepper Motor''" "reference_name motor_3 = Some ''SM-07''"
    by (simp_all add: motor_3_def mk_part_def)
  have e: "''xyz'' \<noteq> []" by simp
  note T1 = C6_match_predicate [of "''xyz''" motor_3 "Some motor_tree" motor_tree]
  note T2 = C6_match_predicate [of "''STEPPER''" motor_3 "Some motor_tree" motor_tree]
  note T3 = C6_match_predicate [of "''sm-07''" motor_3 "Some motor_tree" motor_tree]
  from T1 e a have w1: "filteredData ''xyz'' (Some motor_tree) = None" by blast
  from T1 e a' have w2: "filteredData_legacy ''xyz'' (Some motor_tree) = None" by blast
  from T1 have w3: "filteredData [] (Some motor_tree) = Some motor_tree"
    and w4: "filteredData_legacy [] (Some motor_tree) = Some motor_tree" by blast+
  from T2 b c have w5: "node_matches ''STEPPER'' motor_3" by blast
  from T3 b' c have w6: "node_matches_legacy ''sm-07'' motor_3" by blast
  from a have w7: "\<not> has_match (node_matches ''xyz'') motor_tree"
    by (simp add: has_match_def list_ex_iff)
  from a' have w8: "\<not> has_match (node_matches_legacy ''xyz'') motor_tree"
    by (simp add: has_match_def list_ex_iff)
  from e w1 w2 w3 w4 w5 w6 w7 w8 b b' show ?thesis by (intro conjI)
qed

text \<open>
  Claim C6 as stated names the name among the fields tested. The filter of
  \<open>BOMTreeView\<close> does not test it: the query \<open>motor\<close> occurs in the name
  \<open>Stepper Motor\<close> of a node that this filter does not match, and the hierarchy
  filters to \<open>null\<close>, where the filter of \<open>DynamicBOMTreeView\<close> keeps the node.
\<close>

theorem C6_legacy_name_counterexample:
  "name motor_3 = Some ''Stepper Motor'' \<and>
   ci_contains ''Stepper Motor'' ''motor'' \<and>
   \<not> node_matches_legacy ''motor'' motor_3 \<and>
   filteredData_legacy ''motor'' (Some motor_tree) = None \<and>
   node_matches ''motor'' motor_3 \<and>
   filteredData ''motor'' (Some motor_tree) =
     Some (Node assy_1 [Node drive_2 [Node motor_3 []]])"
  by code_simp

section \<open>Properties of the selection effect\<close>

lemma same_appearance_refl [simp]: "same_appearance h h"
  by (simp add: same_appearance_def)

lemma same_appearance_trans:
  "same_appearance h h' \<Longrightarrow> same_appearance h' h'' \<Longrightarrow> same_appearance h h''"
  by (simp add: same_appearance_def)

lemma snapshot_of_appearance:
  "same_appearance h h' \<Longrightarrow> snapshot_of h c \<Longrightarrow> snapshot_of h' c"
  by (auto simp: same_appearance_def snapshot_of_def split: option.splits)

lemma snapshot_ok_appearance:
  "same_appearance h h' \<Longrightarrow> snapshot_ok objs h \<Longrightarrow> snapshot_ok objs h'"
  by (auto simp: snapshot_ok_def list_all_iff dest: snapshot_of_appearance)

lemma enhance_appearance:
  "color (enhance_material m) = color m \<and> emissive (enhance_material m) = emissive m \<and>
   emissiveIntensity (enhance_material m) = emissiveIntensity m"
  by (simp add: enhance_material_def)

lemma load_object_appearance:
  "load_object c h = (c', h') \<Longrightarrow> same_appearance h h'"
  by (auto simp: load_object_def same_appearance_def Let_def enhance_appearance
      split: if_splits option.splits)

lemma load_object_snapshot:
  assumes "load_object c h = (c', h')"
    and "originalColor c = None" "originalEmissive c = None" "originalEmissiveIntensity c = None"
  shows "isMesh c' = isMesh c \<and> (isMesh c \<longrightarrow> snapshot_of h c' \<and> material_ref c' = originalMaterial c')"
  using assms
  by (auto simp: load_object_def snapshot_of_def Let_def enhance_appearance
      split: if_splits option.splits)

lemma load_objects_ok:
  "load_objects objs h = (objs', h') \<Longrightarrow> fresh_userData objs \<Longrightarrow>
     same_appearance h h' \<and> snapshot_ok objs' h' \<and> list_all (\<lambda>c. \<not> highlighted c) objs' \<and>
     length objs' = length objs"
proof (induction objs arbitrary: h objs' h')
  case Nil
  then show ?case by (simp add: snapshot_ok_def)
next
  case (Cons c cs)
  obtain c1 h1 where c1: "load_object c h = (c1, h1)" by (cases "load_object c h")
  obtain cs1 h2 where cs1: "load_objects cs h1 = (cs1, h2)" by (cases "load_objects cs h1")
  from Cons.prems(1) c1 cs1 have eq: "objs' = c1 # cs1" "h' = h2" by simp_all
  from Cons.prems(2) have fr: "fresh_userData cs"
    and f0: "originalColor c = None" "originalEmissive c = None" "originalEmissiveIntensity c = None"
    by (simp_all add: fresh_userData_def)
  from Cons.IH[OF cs1 fr] have ih: "same_appearance h1 h2" "snapshot_ok cs1 h2"
    "list_all (\<lambda>c. \<not> highlighted c) cs1" "length cs1 = length cs" by simp_all
  have a1: "same_appearance h h1" using c1 by (rule load_object_appearance)
  from load_object_snapshot[OF c1 f0] have s1: "isMesh c1 \<longrightarrow> snapshot_of h c1"
    and nh: "\<not> highlighted c1" by (auto simp: highlighted_def)
  from s1 have "isMesh c1 \<longrightarrow> snapshot_of h2 c1"
    using snapshot_of_appearance[OF same_appearance_trans[OF a1 ih(1)]] by blast
  with ih nh a1 eq show ?case
    by (auto simp: snapshot_ok_def intro: same_appearance_trans)
qed

lemma reset_object_ok:
  assumes "\<not> isMesh c \<or> snapshot_of h c"
  shows "\<exists>h'. reset_object c h = Inr (reset_ref c, h') \<and> same_appearance h h'"
proof (cases "isMesh c \<and> originalMaterial c \<noteq> None")
  case False
  then show ?thesis by (auto simp: reset_object_def reset_ref_def)
next
  case True
  then obtain a where a: "originalMaterial c = Some a" by auto
  with True assms have s: "originalColor c = color (h a)" "originalEmissive c = emissive (h a)"
    "originalEmissiveIntensity c = emissiveIntensity (h a)" by (simp_all add: snapshot_of_def)
  obtain h1 where h1: "restore_color a (originalColor c) h = Inr h1" "same_appearance h h1"
    using s(1) by (cases "color (h a)") (auto simp: restore_color_def same_appearance_def)
  from h1(2) s(2) have "originalEmissive c = emissive (h1 a)" by (simp add: same_appearance_def)
  then obtain h2 where h2: "restore_emissive a (originalEmissive c) h1 = Inr h2" "same_appearance h1 h2"
    by (cases "emissive (h1 a)") (auto simp: restore_emissive_def same_appearance_def)
  from h1(2) h2(2) s(3) have "originalEmissiveIntensity c = emissiveIntensity (h2 a)"
    by (simp add: same_appearance_def)
  then have h3: "same_appearance h2 (restore_intensity a (originalEmissiveIntensity c) h2)"
    by (cases "emissiveIntensity (h2 a)") (auto simp: restore_intensity_def same_appearance_def)
  define h3 where "h3 = restore_intensity a (originalEmissiveIntensity c) h2"
  have h4: "same_appearance h3 (h3(a := (h3 a)\<lparr>version := Suc (version (h3 a))\<rparr>))"
    by (simp add: same_appearance_def)
  have "reset_object c h = Inr (reset_ref c, h3(a := (h3 a)\<lparr>version := Suc (version (h3 a))\<rparr>))"
    using True a h1(1) h2(1) by (simp add: reset_object_def reset_ref_def h3_def Let_def)
  moreover have "same_appearance h (h3(a := (h3 a)\<lparr>version := Suc (version (h3 a))\<rparr>))"
    using h1(2) h2(2) h3 h4 unfolding h3_def by (blast intro: same_appearance_trans)
  ultimately show ?thesis by blast
qed

lemma reset_materials_ok:
  "snapshot_ok objs h \<Longrightarrow>
     \<exists>h'. reset_materials objs h = Inr (map reset_ref objs, h') \<and> same_appearance h h'"
proof (induction objs arbitrary: h)
  case Nil
  then show ?case by simp
next
  case (Cons c cs)
  from Cons.prems have c: "\<not> isMesh c \<or> snapshot_of h c" and cs: "snapshot_ok cs h"
    by (simp_all add: snapshot_ok_def)
  from reset_object_ok[OF c] obtain h1 where
    h1: "reset_object c h = Inr (reset_ref c, h1)" "same_appearance h h1" by blast
  from snapshot_ok_appearance[OF h1(2) cs] have "snapshot_ok cs h1" .
  from Cons.IH[OF this] obtain h2 where
    h2: "reset_materials cs h1 = Inr (map reset_ref cs, h2)" "same_appearance h1 h2" by blast
  from h1 h2 show ?case by (auto intro: same_appearance_trans)
qed

lemma snapshot_of_reset_ref: "snapshot_of h c \<Longrightarrow> snapshot_of h (reset_ref c)"
  by (auto simp: snapshot_of_def reset_ref_def split: option.splits)

lemma isMesh_reset_ref [simp]: "isMesh (reset_ref c) = isMesh c"
  by (simp add: reset_ref_def)

lemma originalMaterial_reset_ref [simp]: "originalMaterial (reset_ref c) = originalMaterial c"
  by (simp add: reset_ref_def)

lemma forget_reset_ref [simp]: "forget_ref (reset_ref c) = forget_ref c"
  by (simp add: reset_ref_def forget_ref_def)

lemma snapshot_ok_reset: "snapshot_ok objs h \<Longrightarrow> snapshot_ok (map reset_ref objs) h"
  by (auto simp: snapshot_ok_def list_all_iff dest: snapshot_of_reset_ref)

lemma reset_ref_not_highlighted:
  "\<not> isMesh c \<or> snapshot_of h c \<Longrightarrow> \<not> highlighted (reset_ref c)"
  by (auto simp: highlighted_def reset_ref_def snapshot_of_def split: option.splits)

lemma reset_ref_shows:
  "isMesh c \<Longrightarrow> snapshot_of h c \<Longrightarrow> shows_snapshot h (reset_ref c)"
  by (auto simp: shows_snapshot_def reset_ref_def snapshot_of_def split: option.splits)

lemma fold_max_ge: "m \<le> fold max xs (m::nat)"
  by (induction xs arbitrary: m) (auto intro: order_trans[OF max.cobounded2])

lemma fold_max_mem: "x \<in> set xs \<Longrightarrow> x \<le> fold max xs (m::nat)"
proof (induction xs arbitrary: m)
  case Nil
  then show ?case by simp
next
  case (Cons y ys)
  show ?case
  proof (cases "x = y")
    case True
    have "x \<le> max y m" using True by simp
    also have "\<dots> \<le> fold max ys (max y m)" by (rule fold_max_ge)
    finally show ?thesis by simp
  next
    case False
    with Cons show ?thesis by simp
  qed
qed

lemma new_material_ref_fresh:
  "c \<in> set objs \<Longrightarrow> a \<in> set (object_refs c) \<Longrightarrow> a < new_material_ref objs"
proof -
  assume "c \<in> set objs" "a \<in> set (object_refs c)"
  then have "a \<in> set (concat (map object_refs objs))" by auto
  from fold_max_mem[OF this, of 0] show ?thesis by (simp add: new_material_ref_def)
qed

lemma original_fresh:
  "c \<in> set objs \<Longrightarrow> originalMaterial c = Some a \<Longrightarrow> a \<noteq> new_material_ref objs"
  using new_material_ref_fresh[of c objs a] by (auto simp: object_refs_def)

lemma focusCameraOnMesh_frame [simp]:
  "objects (focusCameraOnMesh m s) = objects s"
  "materials (focusCameraOnMesh m s) = materials s"
  "loadError (focusCameraOnMesh m s) = loadError s"
  "isInitialLoad (focusCameraOnMesh m s) = isInitialLoad s"
  by (simp_all add: focusCameraOnMesh_def Let_def)

lemma filter_update_le1:
  "list_all (\<lambda>x. \<not> P x) xs \<Longrightarrow> length (filter P (xs[i := x])) \<le> 1"
proof (cases "i < length xs")
  case False
  assume "list_all (\<lambda>x. \<not> P x) xs"
  then have "filter P xs = []" by (simp add: list_all_iff filter_empty_conv)
  with False show ?thesis by (simp add: list_update_beyond not_less)
next
  case True
  assume a: "list_all (\<lambda>x. \<not> P x) xs"
  then have "filter P (take i xs) = []" "filter P (drop (Suc i) xs) = []"
    by (auto simp: list_all_iff filter_empty_conv dest: in_set_takeD in_set_dropD)
  with True show ?thesis by (simp add: upd_conv_take_nth_drop)
qed

lemma highlight_result:
  assumes "highlight i s = Inr s'"
  shows "\<exists>a. originalMaterial (objects s ! i) = Some a \<and>
           objects s' = (objects s)[i := (objects s ! i)\<lparr>material_ref := Some (new_material_ref (objects s))\<rparr>] \<and>
           materials s' = (materials s)(new_material_ref (objects s) :=
              (materials s a)\<lparr> color := Some (setHex 0xff4444), emissive := Some (setHex 0x441100),
                               emissiveIntensity := Some 0.3, version := 1 \<rparr>) \<and>
           loadError s' = loadError s \<and> isInitialLoad s' = isInitialLoad s"
  using assms by (auto simp: highlight_def Let_def split: option.splits)

lemma forget_update [simp]: "forget_ref (c\<lparr>material_ref := r\<rparr>) = forget_ref c"
  by (simp add: forget_ref_def)

lemma map_forget_update:
  "i < length xs \<Longrightarrow> map forget_ref (xs[i := (xs ! i)\<lparr>material_ref := r\<rparr>]) = map forget_ref xs"
  by (simp add: map_update list_update_same_conv)

lemma reset_then_highlight_core:
  assumes ok: "snapshot_ok (objects s) (materials s)"
    and run: "reset_then_highlight lookup sel s = Inr s'"
  shows "snapshot_ok (objects s') (materials s') \<and>
         map forget_ref (objects s') = map forget_ref (objects s) \<and>
         length (filter highlighted (objects s')) \<le> 1 \<and>
         (sel = None \<longrightarrow> objects s' = map reset_ref (objects s)) \<and>
         (objects s' = map reset_ref (objects s) \<or>
          (\<exists>i n. i < length (objects s) \<and>
             objects s' =
               (map reset_ref (objects s))[i := (reset_ref (objects s ! i))\<lparr>material_ref := Some n\<rparr>])) \<and>
         (\<forall>c \<in> set (objects s'). isMesh c \<and> \<not> highlighted c \<longrightarrow> shows_snapshot (materials s') c) \<and>
         (\<forall>c \<in> set (objects s'). highlighted c \<longrightarrow>
            (\<exists>a n. originalMaterial c = Some a \<and> material_ref c = Some n \<and> n \<noteq> a \<and>
                   is_highlight_of (materials s' a) (materials s' n))) \<and>
         loadError s' = loadError s \<and> isInitialLoad s' = isInitialLoad s"
proof -
  let ?objs = "map reset_ref (objects s)"
  from reset_materials_ok[OF ok] obtain h where
    h: "reset_materials (objects s) (materials s) = Inr (?objs, h)" "same_appearance (materials s) h"
    by blast
  define s1 where "s1 = s\<lparr>objects := ?objs, materials := h\<rparr>"
  have ok0: "snapshot_ok (objects s) h" using snapshot_ok_appearance[OF h(2) ok] .
  have ok1: "snapshot_ok ?objs h" using snapshot_ok_reset[OF ok0] .
  have nh: "list_all (\<lambda>c. \<not> highlighted c) ?objs"
    using ok0 reset_ref_not_highlighted unfolding snapshot_ok_def list_all_iff by fastforce
  have sh: "\<forall>c \<in> set ?objs. isMesh c \<longrightarrow> shows_snapshot h c"
    using ok0 reset_ref_shows unfolding snapshot_ok_def list_all_iff by fastforce
  have fg: "map forget_ref ?objs = map forget_ref (objects s)" by (simp add: comp_def)
  have base: ?thesis if "s' = s1"
  proof -
    have "filter highlighted ?objs = []" using nh by (simp add: list_all_iff filter_empty_conv)
    with that ok1 fg sh nh show ?thesis
      by (auto simp: s1_def list_all_iff)
  qed
  show ?thesis
  proof (cases sel)
    case None
    with run h have "s' = s1" by (simp add: reset_then_highlight_def s1_def)
    then show ?thesis by (rule base)
  next
    case (Some p)
    show ?thesis
    proof (cases "lookup p ?objs")
      case None
      with run h Some have "s' = s1" by (simp add: reset_then_highlight_def s1_def)
      then show ?thesis by (rule base)
    next
      case (Some i)
      show ?thesis
      proof (cases "i < length ?objs \<and> isMesh (?objs ! i)")
        case False
        with run h \<open>sel = Some p\<close> Some have "s' = s1"
          by (auto simp: reset_then_highlight_def s1_def Let_def split: if_splits)
        then show ?thesis by (rule base)
      next
        case True
        with run h \<open>sel = Some p\<close> Some have hl: "highlight i s1 = Inr s'"
          by (auto simp: reset_then_highlight_def s1_def Let_def split: if_splits)
        define n where "n = new_material_ref ?objs"
        from highlight_result[OF hl] obtain a where
          a: "originalMaterial (?objs ! i) = Some a"
          and o': "objects s' = ?objs[i := (?objs ! i)\<lparr>material_ref := Some n\<rparr>]"
          and m': "materials s' = h(n := (h a)\<lparr> color := Some (setHex 0xff4444),
                     emissive := Some (setHex 0x441100), emissiveIntensity := Some 0.3, version := 1 \<rparr>)"
          and fr: "loadError s' = loadError s" "isInitialLoad s' = isInitialLoad s"
          by (auto simp: s1_def n_def)
        from True have iin: "?objs ! i \<in> set ?objs" by simp
        have fresh: "b \<noteq> n" if "c \<in> set ?objs" "originalMaterial c = Some b" for c b
          using original_fresh[OF that] by (simp add: n_def)
        have an: "a \<noteq> n" using fresh[OF iin a] .
        have app: "color (materials s' b) = color (h b) \<and> emissive (materials s' b) = emissive (h b) \<and>
                   emissiveIntensity (materials s' b) = emissiveIntensity (h b)" if "b \<noteq> n" for b
          using that by (simp add: m')
        have mem: "c \<in> set ?objs \<or> c = (?objs ! i)\<lparr>material_ref := Some n\<rparr>"
          if "c \<in> set (objects s')" for c
          using that set_update_subset_insert[of ?objs i] by (auto simp: o')
        have upd_h: "highlighted ((?objs ! i)\<lparr>material_ref := Some n\<rparr>)"
          using True a an by (auto simp: highlighted_def)
        have 1: "snapshot_ok (objects s') (materials s')"
          unfolding snapshot_ok_def list_all_iff
        proof
          fix c assume c: "c \<in> set (objects s')"
          from mem[OF c] show "\<not> isMesh c \<or> snapshot_of (materials s') c"
          proof
            assume cin: "c \<in> set ?objs"
            with ok1 have "\<not> isMesh c \<or> snapshot_of h c"
              unfolding snapshot_ok_def list_all_iff by blast
            then show ?thesis
              using fresh[OF cin] app by (auto simp: snapshot_of_def split: option.splits)
          next
            assume ceq: "c = (?objs ! i)\<lparr>material_ref := Some n\<rparr>"
            from ok1 iin True have "snapshot_of h (?objs ! i)"
              unfolding snapshot_ok_def list_all_iff by blast
            then show ?thesis
              using a an app by (auto simp: ceq snapshot_of_def split: option.splits)
          qed
        qed
        have 2: "map forget_ref (objects s') = map forget_ref (objects s)"
        proof -
          from True have "i < length ?objs" by simp
          from map_forget_update[OF this, of "Some n"]
          have "map forget_ref (objects s') = map forget_ref ?objs" unfolding o' .
          with fg show ?thesis by simp
        qed
        have 3: "length (filter highlighted (objects s')) \<le> 1"
          unfolding o' using nh by (rule filter_update_le1)
        have 5: "\<forall>c \<in> set (objects s'). isMesh c \<and> \<not> highlighted c \<longrightarrow> shows_snapshot (materials s') c"
        proof (intro ballI impI)
          fix c assume c: "c \<in> set (objects s')" and m: "isMesh c \<and> \<not> highlighted c"
          from mem[OF c] m upd_h have cin: "c \<in> set ?objs" by auto
          with sh m have "shows_snapshot h c" by blast
          then show "shows_snapshot (materials s') c"
            using fresh[OF cin] app by (auto simp: shows_snapshot_def split: option.splits)
        qed
        have 6: "\<forall>c \<in> set (objects s'). highlighted c \<longrightarrow>
            (\<exists>a n. originalMaterial c = Some a \<and> material_ref c = Some n \<and> n \<noteq> a \<and>
                   is_highlight_of (materials s' a) (materials s' n))"
        proof (intro ballI impI)
          fix c assume c: "c \<in> set (objects s')" and hc: "highlighted c"
          from nh have "\<forall>c \<in> set ?objs. \<not> highlighted c" by (simp add: list_all_iff)
          with mem[OF c] hc have ceq: "c = (?objs ! i)\<lparr>material_ref := Some n\<rparr>" by blast
          have "is_highlight_of (materials s' a) (materials s' n)"
            using an by (simp add: m' is_highlight_of_def)
          with a an show "\<exists>a n. originalMaterial c = Some a \<and> material_ref c = Some n \<and> n \<noteq> a \<and>
                   is_highlight_of (materials s' a) (materials s' n)"
            by (auto simp: ceq)
        qed
        have 4: "\<exists>i n. i < length (objects s) \<and>
             objects s' =
               (map reset_ref (objects s))[i := (reset_ref (objects s ! i))\<lparr>material_ref := Some n\<rparr>]"
          using True o' by auto
        from 1 2 3 4 5 6 fr \<open>sel = Some p\<close> show ?thesis by simp
      qed
    qed
  qed
qed

lemma load_effect_ok:
  assumes "raw_scene s0"
  shows "viewer_inv (load_effect s0) \<and> loadError (load_effect s0) = None \<and>
         \<not> isInitialLoad (load_effect s0) \<and>
         same_appearance (materials s0) (materials (load_effect s0)) \<and>
         list_all (\<lambda>c. \<not> highlighted c) (objects (load_effect s0)) \<and>
         length (objects (load_effect s0)) = length (objects s0)"
proof -
  obtain objs h where l: "load_objects (objects s0) (materials s0) = (objs, h)"
    by (cases "load_objects (objects s0) (materials s0)")
  from assms have fr: "fresh_userData (objects s0)" by (simp add: raw_scene_def)
  from load_objects_ok[OF l fr] assms l show ?thesis
    by (simp add: load_effect_def raw_scene_def viewer_inv_def Let_def)
qed

lemma load_effect_once: "raw_scene s0 \<Longrightarrow> load_effect (load_effect s0) = load_effect s0"
  using load_effect_ok[of s0] by (simp add: load_effect_def[of "load_effect s0"])

lemma deselect_total:
  assumes "viewer_inv s"
  shows "\<exists>h. reset_then_highlight lookup None s =
               Inr (s\<lparr>objects := map reset_ref (objects s), materials := h\<rparr>) \<and>
             same_appearance (materials s) h"
proof -
  from assms have "snapshot_ok (objects s) (materials s)" by (simp add: viewer_inv_def)
  from reset_materials_ok[OF this] obtain h where
    "reset_materials (objects s) (materials s) = Inr (map reset_ref (objects s), h)"
    "same_appearance (materials s) h" by blast
  then show ?thesis by (auto simp: reset_then_highlight_def)
qed

lemma effect_step:
  assumes e: "is_effect effect" and inv: "viewer_inv s" and ne: "loadError s = None"
    and run: "effect sel s = Inr s'"
  shows "viewer_inv s' \<and> loadError s' = None \<and>
         map forget_ref (objects s') = map forget_ref (objects s) \<and>
         length (filter highlighted (objects s')) \<le> 1 \<and>
         (sel = None \<longrightarrow> objects s' = map reset_ref (objects s)) \<and>
         (objects s' = map reset_ref (objects s) \<or>
          (\<exists>i n. i < length (objects s) \<and>
             objects s' =
               (map reset_ref (objects s))[i := (reset_ref (objects s ! i))\<lparr>material_ref := Some n\<rparr>])) \<and>
         (\<forall>c \<in> set (objects s'). isMesh c \<and> \<not> highlighted c \<longrightarrow> shows_snapshot (materials s') c) \<and>
         (\<forall>c \<in> set (objects s'). highlighted c \<longrightarrow>
            (\<exists>a n. originalMaterial c = Some a \<and> material_ref c = Some n \<and> n \<noteq> a \<and>
                   is_highlight_of (materials s' a) (materials s' n)))"
proof -
  from e ne run obtain lookup where "reset_then_highlight lookup sel s = Inr s'"
    by (auto simp: is_effect_def selection_effect_def selection_effect_legacy_def)
  from reset_then_highlight_core[OF inv[unfolded viewer_inv_def] this] ne
  show ?thesis by (simp add: viewer_inv_def)
qed

lemma changes_inv:
  assumes e: "is_effect effect"
  shows "selection_changes effect sels s = Inr s' \<Longrightarrow> viewer_inv s \<Longrightarrow> loadError s = None \<Longrightarrow>
         viewer_inv s' \<and> loadError s' = None \<and>
         map forget_ref (objects s') = map forget_ref (objects s)"
proof (induction sels arbitrary: s)
  case Nil
  then show ?case by simp
next
  case (Cons sel sels)
  from Cons.prems(1) obtain s1 where s1: "effect sel s = Inr s1"
    "selection_changes effect sels s1 = Inr s'" by (auto split: sum.splits)
  from effect_step[OF e Cons.prems(2,3) s1(1)] have
    i1: "viewer_inv s1" "loadError s1 = None"
    "map forget_ref (objects s1) = map forget_ref (objects s)" by simp_all
  from Cons.IH[OF s1(2) i1(1,2)] i1(3) show ?case by simp
qed

lemma reachable_inv:
  assumes "is_effect effect" "raw_scene s0"
    and "selection_changes effect sels (load_effect s0) = Inr s"
  shows "viewer_inv s \<and> loadError s = None \<and>
         map forget_ref (objects s) = map forget_ref (objects (load_effect s0))"
  using changes_inv[OF assms(1) assms(3)] load_effect_ok[OF assms(2)] by simp

lemma deselect_effect:
  assumes e: "is_effect effect" and inv: "viewer_inv s" and ne: "loadError s = None"
  shows "\<exists>s'. effect None s = Inr s' \<and>
           objects s' = map reset_ref (objects s) \<and>
           same_appearance (materials s) (materials s') \<and>
           camera_position s' = camera_position s \<and> controls_target s' = controls_target s \<and>
           cameraAnimation s' = cameraAnimation s \<and> camera_fov s' = camera_fov s"
proof -
  from e consider "effect = selection_effect" | "effect = selection_effect_legacy"
    by (auto simp: is_effect_def)
  then show ?thesis
  proof cases
    case 1
    from deselect_total[OF inv, of find_selected_mesh] obtain h where
      "reset_then_highlight find_selected_mesh None s =
         Inr (s\<lparr>objects := map reset_ref (objects s), materials := h\<rparr>)"
      "same_appearance (materials s) h" by blast
    with 1 ne show ?thesis by (simp add: selection_effect_def)
  next
    case 2
    from deselect_total[OF inv, of find_selected_mesh_legacy] obtain h where
      "reset_then_highlight find_selected_mesh_legacy None s =
         Inr (s\<lparr>objects := map reset_ref (objects s), materials := h\<rparr>)"
      "same_appearance (materials s) h" by blast
    with 2 show ?thesis by (simp add: selection_effect_legacy_def)
  qed
qed

lemma forget_ref_fields:
  "forget_ref c = forget_ref d \<Longrightarrow>
     isMesh c = isMesh d \<and> mesh_name c = mesh_name d \<and> originalMaterial c = originalMaterial d \<and>
     originalColor c = originalColor d \<and> originalEmissive c = originalEmissive d \<and>
     originalEmissiveIntensity c = originalEmissiveIntensity d"
  by (cases c, cases d) (simp add: forget_ref_def)

lemma map_forget_nth:
  "map forget_ref xs = map forget_ref ys \<Longrightarrow> i < length xs \<Longrightarrow>
     forget_ref (xs ! i) = forget_ref (ys ! i) \<and> length ys = length xs"
  by (metis length_map nth_map)

section \<open>The selection effect on an example scene\<close>

lemma raw_shaft: "raw_scene shaft_scene"
  by (simp add: raw_scene_def shaft_scene_def fresh_userData_def raw_object_def)

lemma loaded_objects:
  "objects (load_effect shaft_scene) =
     [raw_object ''ASSY'' False None,
      (raw_object ''Shaft-01'' True (Some 0))\<lparr>castShadow := True, receiveShadow := True,
         originalMaterial := Some 0, originalColor := Some (4 / 5, 4 / 5, 4 / 5),
         originalEmissive := Some (0, 0, 0), originalEmissiveIntensity := Some 1\<rparr>,
      (raw_object ''Shaft-02'' True (Some 0))\<lparr>castShadow := True, receiveShadow := True,
         originalMaterial := Some 0, originalColor := Some (4 / 5, 4 / 5, 4 / 5),
         originalEmissive := Some (0, 0, 0), originalEmissiveIntensity := Some 1\<rparr>]"
  by (simp add: load_effect_def shaft_scene_def raw_object_def load_object_def Let_def
      enhance_material_def steel_def)

lemma find_shaft:
  "find_selected_mesh shaft_sel (map reset_ref (objects (load_effect shaft_scene))) = Some 1"
  by (simp add: loaded_objects find_selected_mesh_def shaft_sel_def try_strategy_def
      getObjectByName_def raw_object_def reset_ref_def Let_def)

lemma shaft_select:
  "\<exists>s. selection_effect (Some shaft_sel) (load_effect shaft_scene) = Inr s \<and>
       length (objects s) = 3 \<and> highlighted (objects s ! 1) \<and> \<not> highlighted (objects s ! 2)"
proof -
  let ?L = "load_effect shaft_scene"
  let ?objs = "map reset_ref (objects ?L)"
  from load_effect_ok[OF raw_shaft] have inv: "viewer_inv ?L" and ne: "loadError ?L = None"
    and ap: "same_appearance (materials shaft_scene) (materials ?L)" by simp_all
  from reset_materials_ok[OF inv[unfolded viewer_inv_def]] obtain h where
    h: "reset_materials (objects ?L) (materials ?L) = Inr (?objs, h)"
       "same_appearance (materials ?L) h" by blast
  from ap h(2) have c: "color (h 0) = color steel" "emissive (h 0) = emissive steel"
    by (simp_all add: same_appearance_def shaft_scene_def)
  have objs: "?objs =
     [raw_object ''ASSY'' False None,
      (raw_object ''Shaft-01'' True (Some 0))\<lparr>castShadow := True, receiveShadow := True,
         originalMaterial := Some 0, originalColor := Some (4 / 5, 4 / 5, 4 / 5),
         originalEmissive := Some (0, 0, 0), originalEmissiveIntensity := Some 1\<rparr>,
      (raw_object ''Shaft-02'' True (Some 0))\<lparr>castShadow := True, receiveShadow := True,
         originalMaterial := Some 0, originalColor := Some (4 / 5, 4 / 5, 4 / 5),
         originalEmissive := Some (0, 0, 0), originalEmissiveIntensity := Some 1\<rparr>]"
    by (simp add: loaded_objects reset_ref_def raw_object_def)
  have n: "new_material_ref ?objs = 1"
    unfolding objs by (simp add: new_material_ref_def object_refs_def raw_object_def)
  define s1 where "s1 = ?L\<lparr>objects := ?objs, materials := h\<rparr>"
  have eff: "selection_effect (Some shaft_sel) ?L = highlight 1 s1"
    using ne h(1) find_shaft
    by (simp add: selection_effect_def reset_then_highlight_def s1_def objs raw_object_def)
  obtain s where s: "highlight 1 s1 = Inr s"
    "objects s = ?objs[1 := (?objs ! 1)\<lparr>material_ref := Some 1\<rparr>]"
    using c n
    by (auto simp: highlight_def s1_def steel_def Let_def objs raw_object_def
        split: option.splits)
  have "length (objects s) = 3 \<and> highlighted (objects s ! 1) \<and> \<not> highlighted (objects s ! 2)"
    unfolding s(2) objs by (simp add: highlighted_def raw_object_def)
  with eff s(1) show ?thesis by simp
qed

lemma shaft_select_changes:
  "selection_effect (Some shaft_sel) (load_effect shaft_scene) = Inr s \<Longrightarrow>
     selection_changes selection_effect [Some shaft_sel] (load_effect shaft_scene) = Inr s"
  by simp

text \<open>
  The BOM-to-scene lookup does compare mesh names with the decimal id of the selected
  part (its fourth strategy).
\<close>

lemma id_string_strategy_example:
  "find_selected_mesh
     \<lparr> sel_id = IdNum 7, sel_name = Some ''Housing'', sel_reference_name = Some ''HSG'',
       meshName = Some ''HSG'', selectionSource = Some ''bom_tree'', matchMethod = None,
       isFallback = False \<rparr>
     [raw_object ''Cover'' True (Some 0), raw_object ''7'' True (Some 1)] = Some 1"
  by code_simp

section \<open>Claims about highlight and reset\<close>

text \<open>
  Claim C7. In a scene that was loaded and has seen any sequence of selection changes,
  let a selection highlight the mesh at position \<open>i\<close>. Its material is then a new
  material, a copy of its original material with colour, emissive colour, emissive
  intensity (and version) overridden. The deselection that follows completes and gives
  the mesh its original material back, whose colour, emissive colour and emissive
  intensity equal the snapshot taken at load, which are the values the material had
  before the load. The \<open>userData\<close> of every object, and with it every snapshot, is
  after highlight and after reset what it was after the load, and the load effect does
  not run a second time.
\<close>

theorem C7_highlight_roundtrip:
  assumes raw: "raw_scene s0"
    and run: "selection_changes selection_effect sels (load_effect s0) = Inr s"
    and hl: "selection_effect (Some part) s = Inr s2"
    and i: "i < length (objects s2)"
    and hi: "highlighted (objects s2 ! i)"
  shows "(\<exists>a n. originalMaterial (objects s2 ! i) = Some a \<and>
            material_ref (objects s2 ! i) = Some n \<and> n \<noteq> a \<and>
            is_highlight_of (materials s2 a) (materials s2 n)) \<and>
         (\<exists>s3 a. selection_effect None s2 = Inr s3 \<and>
            material_ref (objects s3 ! i) = Some a \<and>
            originalMaterial (objects (load_effect s0) ! i) = Some a \<and>
            color (materials s3 a) = originalColor (objects (load_effect s0) ! i) \<and>
            emissive (materials s3 a) = originalEmissive (objects (load_effect s0) ! i) \<and>
            emissiveIntensity (materials s3 a) =
              originalEmissiveIntensity (objects (load_effect s0) ! i) \<and>
            color (materials s3 a) = color (materials s0 a) \<and>
            emissive (materials s3 a) = emissive (materials s0 a) \<and>
            emissiveIntensity (materials s3 a) = emissiveIntensity (materials s0 a) \<and>
            map forget_ref (objects s3) = map forget_ref (objects (load_effect s0))) \<and>
         map forget_ref (objects s2) = map forget_ref (objects (load_effect s0)) \<and>
         load_effect (load_effect s0) = load_effect s0"
proof -
  let ?L = "load_effect s0"
  have e: "is_effect selection_effect" by (simp add: is_effect_def)
  from reachable_inv[OF e raw run] have inv: "viewer_inv s" and ne: "loadError s = None"
    and fg: "map forget_ref (objects s) = map forget_ref (objects ?L)" by simp_all
  note st = effect_step[OF e inv ne hl]
  from st have inv2: "viewer_inv s2" and ne2: "loadError s2 = None"
    and fg2: "map forget_ref (objects s2) = map forget_ref (objects s)" by simp_all
  from i have iin: "objects s2 ! i \<in> set (objects s2)" by simp
  with st hi obtain a n where an: "originalMaterial (objects s2 ! i) = Some a"
    "material_ref (objects s2 ! i) = Some n" "n \<noteq> a"
    "is_highlight_of (materials s2 a) (materials s2 n)" by blast
  from hi have mesh: "isMesh (objects s2 ! i)" by (simp add: highlighted_def)
  from deselect_effect[OF e inv2 ne2] obtain s3 where
    s3: "selection_effect None s2 = Inr s3" "objects s3 = map reset_ref (objects s2)"
      "same_appearance (materials s2) (materials s3)" by blast
  from effect_step[OF e inv2 ne2 s3(1)]
  have fg3: "map forget_ref (objects s3) = map forget_ref (objects s2)" by simp
  have fgL2: "map forget_ref (objects s2) = map forget_ref (objects ?L)" using fg fg2 by simp
  from map_forget_nth[OF fgL2 i] have fi: "forget_ref (objects s2 ! i) = forget_ref (objects ?L ! i)"
    and len: "length (objects ?L) = length (objects s2)" by simp_all
  note ff = forget_ref_fields[OF fi]
  have r3: "material_ref (objects s3 ! i) = Some a"
    using i mesh an(1) by (simp add: s3(2) reset_ref_def)
  have oL: "originalMaterial (objects ?L ! i) = Some a" using ff an(1) by simp
  from inv2 iin mesh have "snapshot_of (materials s2) (objects s2 ! i)"
    unfolding viewer_inv_def snapshot_ok_def list_all_iff by blast
  with an(1) have sn2: "originalColor (objects s2 ! i) = color (materials s2 a)"
    "originalEmissive (objects s2 ! i) = emissive (materials s2 a)"
    "originalEmissiveIntensity (objects s2 ! i) = emissiveIntensity (materials s2 a)"
    by (simp_all add: snapshot_of_def)
  from s3(3) have ap: "color (materials s3 a) = color (materials s2 a)"
    "emissive (materials s3 a) = emissive (materials s2 a)"
    "emissiveIntensity (materials s3 a) = emissiveIntensity (materials s2 a)"
    by (simp_all add: same_appearance_def)
  from load_effect_ok[OF raw] have invL: "viewer_inv ?L"
    and apL: "same_appearance (materials s0) (materials ?L)" by simp_all
  from i len have "objects ?L ! i \<in> set (objects ?L)" by simp
  moreover have "isMesh (objects ?L ! i)" using ff mesh by simp
  ultimately have "snapshot_of (materials ?L) (objects ?L ! i)"
    using invL unfolding viewer_inv_def snapshot_ok_def list_all_iff by blast
  with oL apL have snL: "originalColor (objects ?L ! i) = color (materials s0 a)"
    "originalEmissive (objects ?L ! i) = emissive (materials s0 a)"
    "originalEmissiveIntensity (objects ?L ! i) = emissiveIntensity (materials s0 a)"
    by (simp_all add: snapshot_of_def same_appearance_def)
  have A: "\<exists>a n. originalMaterial (objects s2 ! i) = Some a \<and>
            material_ref (objects s2 ! i) = Some n \<and> n \<noteq> a \<and>
            is_highlight_of (materials s2 a) (materials s2 n)" using an by blast
  have B: "\<exists>s3 a. selection_effect None s2 = Inr s3 \<and>
            material_ref (objects s3 ! i) = Some a \<and>
            originalMaterial (objects ?L ! i) = Some a \<and>
            color (materials s3 a) = originalColor (objects ?L ! i) \<and>
            emissive (materials s3 a) = originalEmissive (objects ?L ! i) \<and>
            emissiveIntensity (materials s3 a) = originalEmissiveIntensity (objects ?L ! i) \<and>
            color (materials s3 a) = color (materials s0 a) \<and>
            emissive (materials s3 a) = emissive (materials s0 a) \<and>
            emissiveIntensity (materials s3 a) = emissiveIntensity (materials s0 a) \<and>
            map forget_ref (objects s3) = map forget_ref (objects ?L)"
    using s3(1) r3 oL ap sn2 ff snL fg3 fgL2 by (intro exI[of _ s3] exI[of _ a]) simp
  from A B fgL2 load_effect_once[OF raw] show ?thesis by blast
qed

theorem C7_highlight_roundtrip_witness:
  "raw_scene shaft_scene \<and>
   (\<exists>s2 s3.
      selection_effect (Some shaft_sel) (load_effect shaft_scene) = Inr s2 \<and>
      highlighted (objects s2 ! 1) \<and>
      selection_effect None s2 = Inr s3 \<and>
      material_ref (objects s3 ! 1) = Some 0 \<and>
      color (materials s3 0) = Some (4 / 5, 4 / 5, 4 / 5) \<and>
      emissive (materials s3 0) = Some (0, 0, 0) \<and>
      emissiveIntensity (materials s3 0) = Some 1 \<and>
      originalColor (objects s3 ! 1) = Some (4 / 5, 4 / 5, 4 / 5))"
proof -
  let ?L = "load_effect shaft_scene"
  from shaft_select obtain s2 where
    s2: "selection_effect (Some shaft_sel) ?L = Inr s2" "length (objects s2) = 3"
      "highlighted (objects s2 ! 1)" by blast
  have run: "selection_changes selection_effect [] ?L = Inr ?L" by simp
  have i: "1 < length (objects s2)" using s2(2) by simp
  from C7_highlight_roundtrip [OF raw_shaft run s2(1) i s2(3)] obtain s3 a where
    s3: "selection_effect None s2 = Inr s3" "material_ref (objects s3 ! 1) = Some a"
      "originalMaterial (objects ?L ! 1) = Some a"
      "color (materials s3 a) = color (materials shaft_scene a)"
      "emissive (materials s3 a) = emissive (materials shaft_scene a)"
      "emissiveIntensity (materials s3 a) = emissiveIntensity (materials shaft_scene a)"
      "map forget_ref (objects s3) = map forget_ref (objects ?L)" by blast
  from s3(3) have a: "a = 0" by (simp add: loaded_objects raw_object_def)
  have len: "1 < length (objects s3)"
    using s3(7) by (metis length_map loaded_objects length_Cons list.size(3) One_nat_def
        less_Suc_eq)
  from map_forget_nth[OF s3(7) len] forget_ref_fields
  have "originalColor (objects s3 ! 1) = originalColor (objects ?L ! 1)" by blast
  then have oc: "originalColor (objects s3 ! 1) = Some (4 / 5, 4 / 5, 4 / 5)"
    by (simp add: loaded_objects raw_object_def)
  from s3(4,5,6) have v: "color (materials s3 0) = Some (4 / 5, 4 / 5, 4 / 5)"
    "emissive (materials s3 0) = Some (0, 0, 0)" "emissiveIntensity (materials s3 0) = Some 1"
    by (simp_all add: a shaft_scene_def steel_def)
  from raw_shaft s2(1,3) s3(1,2) a v oc show ?thesis by blast
qed

text \<open>
  Claim C9. In a scene that was loaded and has seen any sequence of selection changes,
  the effect of the selection becoming \<open>null\<close> completes; afterwards every mesh
  has its original material, showing the colour, emissive colour and emissive intensity
  of its snapshot, no mesh is highlighted, the snapshots are those of the load, and
  camera position, field of view, controls target and camera animation are what they
  were: no animation is started. (An animation already running is not cancelled.)
\<close>

theorem C9_deselect_resets_keeps_camera:
  assumes raw: "raw_scene s0"
    and run: "selection_changes selection_effect sels (load_effect s0) = Inr s"
  shows "\<exists>s'. selection_effect None s = Inr s' \<and>
      list_all (\<lambda>c. \<not> isMesh c \<or> shows_snapshot (materials s') c) (objects s') \<and>
      list_all (\<lambda>c. \<not> highlighted c) (objects s') \<and>
      map forget_ref (objects s') = map forget_ref (objects (load_effect s0)) \<and>
      camera_position s' = camera_position s \<and> controls_target s' = controls_target s \<and>
      cameraAnimation s' = cameraAnimation s \<and> camera_fov s' = camera_fov s"
proof -
  have e: "is_effect selection_effect" by (simp add: is_effect_def)
  from reachable_inv[OF e raw run] have inv: "viewer_inv s" and ne: "loadError s = None"
    and fg: "map forget_ref (objects s) = map forget_ref (objects (load_effect s0))" by simp_all
  from deselect_effect[OF e inv ne] obtain s' where
    s': "selection_effect None s = Inr s'" "objects s' = map reset_ref (objects s)"
    and cam: "camera_position s' = camera_position s" "controls_target s' = controls_target s"
      "cameraAnimation s' = cameraAnimation s" "camera_fov s' = camera_fov s" by blast
  note st = effect_step[OF e inv ne s'(1)]
  from st have sh: "\<forall>c \<in> set (objects s'). isMesh c \<and> \<not> highlighted c \<longrightarrow> shows_snapshot (materials s') c"
    by (elim conjE)
  from st have fg': "map forget_ref (objects s') = map forget_ref (objects s)"
    by (elim conjE)
  have nh: "list_all (\<lambda>c. \<not> highlighted c) (objects s')"
    using inv reset_ref_not_highlighted unfolding s'(2) viewer_inv_def snapshot_ok_def list_all_iff
    by fastforce
  with sh have "list_all (\<lambda>c. \<not> isMesh c \<or> shows_snapshot (materials s') c) (objects s')"
    by (auto simp: list_all_iff)
  with s'(1) nh fg fg' cam show ?thesis by auto
qed

theorem C9_deselect_resets_keeps_camera_witness:
  "raw_scene shaft_scene \<and>
   (\<exists>s s'.
      selection_changes selection_effect [Some shaft_sel] (load_effect shaft_scene) = Inr s \<and>
      highlighted (objects s ! 1) \<and>
      selection_effect None s = Inr s' \<and>
      list_all (\<lambda>c. \<not> highlighted c) (objects s') \<and>
      list_all (\<lambda>c. \<not> isMesh c \<or> shows_snapshot (materials s') c) (objects s') \<and>
      camera_position s' = camera_position s \<and> cameraAnimation s' = cameraAnimation s)"
proof -
  from shaft_select obtain s where
    s: "selection_effect (Some shaft_sel) (load_effect shaft_scene) = Inr s"
      "highlighted (objects s ! 1)" by blast
  note run = shaft_select_changes[OF s(1)]
  from C9_deselect_resets_keeps_camera [OF raw_shaft run] raw_shaft run s(2)
  show ?thesis by blast
qed

text \<open>
  Claim C10. After a selection change has been handled (by the effect of either viewer
  component), at most one mesh carries a material other than its original one, and
  none after a deselection: the objects are those of the full reset, in which no mesh
  is highlighted, with the material of at most one of them replaced; every other mesh
  shows the values of its snapshot.
\<close>

theorem C10_at_most_one_highlight:
  assumes raw: "raw_scene s0"
    and e: "effect = selection_effect \<or> effect = selection_effect_legacy"
    and run: "selection_changes effect sels (load_effect s0) = Inr s"
    and step: "effect sel s = Inr s'"
  shows "length (filter highlighted (objects s')) \<le> 1 \<and>
      (sel = None \<longrightarrow> filter highlighted (objects s') = []) \<and>
      (objects s' = map reset_ref (objects s) \<or>
       (\<exists>i n. i < length (objects s) \<and>
          objects s' =
            (map reset_ref (objects s))[i := (reset_ref (objects s ! i))\<lparr>material_ref := Some n\<rparr>])) \<and>
      list_all (\<lambda>c. \<not> highlighted c) (map reset_ref (objects s)) \<and>
      list_all (\<lambda>c. \<not> isMesh c \<or> highlighted c \<or> shows_snapshot (materials s') c) (objects s')"
proof -
  from e have e': "is_effect effect" by (simp add: is_effect_def)
  from reachable_inv[OF e' raw run] have inv: "viewer_inv s" and ne: "loadError s = None"
    by simp_all
  note st = effect_step[OF e' inv ne step]
  have nh: "list_all (\<lambda>c. \<not> highlighted c) (map reset_ref (objects s))"
    using inv reset_ref_not_highlighted unfolding viewer_inv_def snapshot_ok_def list_all_iff
    by fastforce
  have none: "filter highlighted (objects s') = []" if "sel = None"
  proof -
    from st that have "objects s' = map reset_ref (objects s)" by simp
    with nh show ?thesis by (simp add: list_all_iff filter_empty_conv)
  qed
  from st have "list_all (\<lambda>c. \<not> isMesh c \<or> highlighted c \<or> shows_snapshot (materials s') c) (objects s')"
    by (auto simp: list_all_iff)
  with st nh none show ?thesis by blast
qed

theorem C10_at_most_one_highlight_witness:
  "raw_scene shaft_scene \<and>
   (\<exists>s s'.
      selection_effect (Some shaft_sel) (load_effect shaft_scene) = Inr s \<and>
      length (filter highlighted (objects s)) \<le> 1 \<and>
      highlighted (objects s ! 1) \<and> \<not> highlighted (objects s ! 2) \<and>
      selection_effect None s = Inr s' \<and>
      filter highlighted (objects s') = [])"
proof -
  let ?L = "load_effect shaft_scene"
  from shaft_select obtain s where
    s: "selection_effect (Some shaft_sel) ?L = Inr s"
      "highlighted (objects s ! 1)" "\<not> highlighted (objects s ! 2)" by blast
  have e: "selection_effect = selection_effect \<or> selection_effect = selection_effect_legacy"
    by simp
  have run0: "selection_changes selection_effect [] ?L = Inr ?L" by simp
  note run1 = shaft_select_changes[OF s(1)]
  from C10_at_most_one_highlight [OF raw_shaft e run0 s(1)]
  have le: "length (filter highlighted (objects s)) \<le> 1" by blast
  have "is_effect selection_effect" by (simp add: is_effect_def)
  from reachable_inv[OF this raw_shaft run1] deselect_effect[OF this, of s]
  obtain s' where s': "selection_effect None s = Inr s'" by blast
  from C10_at_most_one_highlight [OF raw_shaft e run1 s']
  have "filter highlighted (objects s') = []" by blast
  with raw_shaft s le s' show ?thesis by blast
qed

end
